theory Spec2Isabelle
  imports Main "HOL-Library.Word" "HOL-Library.Multiset"
begin

unbundle bit_operations_syntax

section \<open>Conventions\<close>

text \<open>
  The development embeds the storage engine of lfjson for the 64-bit little-endian target
  (\<open>LFJ_64BIT\<close>): pointers are 8 bytes, \<open>sizeof(JValue) = 16\<close>,
  \<open>sizeof(JMember) = 24\<close>, \<open>alignof(JBigObject) = 8\<close>.

  The model follows the release build: \<open>assert\<close> is a no-operation. Where the
  release build would then read or write outside a buffer, or read a union member under
  the wrong tag, the model returns an error value instead of a result. A thrown C++
  exception is an error value as well.
\<close>

datatype error =
    OutOfRange      \<comment> \<open>\<open>std::out_of_range\<close> thrown by a checked accessor\<close>
  | OutOfBounds     \<comment> \<open>access outside the bounds of a buffer\<close>
  | BadTag          \<comment> \<open>typed accessor used on a cell with another tag\<close>
  | Overflow        \<comment> \<open>conversion of a float that \<open>uint32_t\<close> cannot hold\<close>
  | Diverges        \<comment> \<open>a walk over a dead-cell list that does not end\<close>
  | NotModelled     \<comment> \<open>release of a root that holds a buffer, which the handler model leaves out\<close>

type_synonym byte = "8 word"
type_synonym memory = "nat \<Rightarrow> byte"

section \<open>PoolAllocator (PoolAllocator.h)\<close>

text \<open>
  Addresses are natural numbers, \<open>nullptr\<close> is 0. The bytes of all chunks live in one
  memory \<open>mem\<close>. The base allocator is an external collaborator: the address it returns
  at its \<open>k\<close>-th call is \<open>base k\<close>, for an arbitrary function \<open>base\<close>.
\<close>

definition DeadCellSize :: "32 word" where
  "DeadCellSize = 4"

definition DeadCell_setSize :: "memory \<Rightarrow> nat \<Rightarrow> 16 word \<Rightarrow> memory" where
  "DeadCell_setSize m ptr sz = m(ptr := ucast (sz AND 0xFF), ptr + 1 := ucast (drop_bit 8 sz))"

definition DeadCell_setNext :: "memory \<Rightarrow> nat \<Rightarrow> 16 word \<Rightarrow> memory" where
  "DeadCell_setNext m ptr nx = m(ptr + 2 := ucast (nx AND 0xFF), ptr + 3 := ucast (drop_bit 8 nx))"

definition DeadCell_getSize :: "memory \<Rightarrow> nat \<Rightarrow> 16 word" where
  "DeadCell_getSize m ptr = ucast (m ptr) OR push_bit 8 (ucast (m (ptr + 1)))"

definition DeadCell_getNext :: "memory \<Rightarrow> nat \<Rightarrow> 16 word" where
  "DeadCell_getNext m ptr = ucast (m (ptr + 2)) OR push_bit 8 (ucast (m (ptr + 3)))"

record chunk =
  firstAvail :: "16 word"
  firstDead  :: "16 word"
  totalDead  :: "16 word"
  data       :: nat

text \<open>The constructor \<open>Chunk(void* ptr)\<close>; \<open>cs\<close> is the template parameter \<open>ChunkSize\<close>.\<close>

definition Chunk :: "16 word \<Rightarrow> nat \<Rightarrow> chunk" where
  "Chunk cs ptr = \<lparr>firstAvail = 0, firstDead = cs, totalDead = 0, data = ptr\<rparr>"

definition avail :: "16 word \<Rightarrow> chunk \<Rightarrow> 16 word" where
  "avail cs c = cs - firstAvail c"

text \<open>
  A \<open>Fallback\<close> record is \<open>{next, size, data[]}\<close>; the forward list is the list of
  its records, head first, each given by its address and its \<open>size\<close> field. The payload
  \<open>data\<close> starts 12 bytes into the record, and \<open>sizeof(Fallback) = 16\<close>.
\<close>

record pool_allocator =
  mLastChunk      :: "32 word"
  mTotalDead      :: "32 word"
  mChunksCapacity :: "32 word"
  mChunks         :: "chunk list"          \<comment> \<open>the first \<open>mChunksCount\<close> entries of the vector\<close>
  mFallbacks      :: "(nat \<times> 32 word) list"
  mFallbackCount  :: "32 word"
  mem             :: memory
  base            :: "nat \<Rightarrow> nat"
  baseCalls       :: nat

definition mChunksCount :: "pool_allocator \<Rightarrow> 32 word" where
  "mChunksCount pa = of_nat (length (mChunks pa))"

definition PoolAllocator :: "(nat \<Rightarrow> nat) \<Rightarrow> pool_allocator" where
  "PoolAllocator b = \<lparr>mLastChunk = 0, mTotalDead = 0, mChunksCapacity = 0, mChunks = [],
     mFallbacks = [], mFallbackCount = 0, mem = (\<lambda>_. 0), base = b, baseCalls = 0\<rparr>"

definition base_allocate :: "pool_allocator \<Rightarrow> nat \<times> pool_allocator" where
  "base_allocate pa = (base pa (baseCalls pa), pa\<lparr>baseCalls := Suc (baseCalls pa)\<rparr>)"

definition totalDead_of :: "pool_allocator \<Rightarrow> 32 word" where
  "totalDead_of pa = mTotalDead pa"

definition chunkable :: "16 word \<Rightarrow> 32 word \<Rightarrow> bool" where
  "chunkable cs alignedSize \<longleftrightarrow> alignedSize \<le> ucast cs"

definition alignSize :: "32 word \<Rightarrow> 32 word" where
  "alignSize sz = (let alignment = 8; floor = (sz div alignment) * alignment
                   in if sz = floor then floor else floor + alignment)"

text \<open>
  \<open>findChunk\<close>: binary search over the address-sorted chunk vector; returns the flag and
  \<open>ptrIdx\<close> (the successor index when the pointer lies in no chunk).
\<close>

function findChunk_loop :: "16 word \<Rightarrow> chunk list \<Rightarrow> nat \<Rightarrow> nat \<Rightarrow> nat \<Rightarrow> bool \<times> nat" where
  "findChunk_loop cs chunks ptr beginIdx endIdx =
     (if beginIdx < endIdx then
        (let midIdx = (beginIdx + endIdx) div 2;
             mid = data (chunks ! midIdx);
             cmp = int ptr - int mid
         in if cmp < 0 then findChunk_loop cs chunks ptr beginIdx midIdx
            else if cmp \<ge> uint cs then findChunk_loop cs chunks ptr (midIdx + 1) endIdx
            else (True, midIdx))
      else (False, endIdx))"
  by pat_completeness auto
termination
  by (relation "measure (\<lambda>(cs, chunks, ptr, b, e). e - b)") auto

declare findChunk_loop.simps [simp del]

definition findChunk :: "16 word \<Rightarrow> pool_allocator \<Rightarrow> nat \<Rightarrow> bool \<times> nat" where
  "findChunk cs pa ptr = findChunk_loop cs (mChunks pa) ptr 0 (length (mChunks pa))"

text \<open>
  \<open>sortNewChunk\<close>: the chunk just constructed at index \<open>mChunksCount\<close> is moved to its
  place by data address; returns the new vector and the index.
\<close>

definition sortNewChunk :: "16 word \<Rightarrow> pool_allocator \<Rightarrow> chunk \<Rightarrow> chunk list \<times> nat" where
  "sortNewChunk cs pa new =
     (let successorIdx = snd (findChunk cs pa (data new))
      in (take successorIdx (mChunks pa) @ new # drop successorIdx (mChunks pa), successorIdx))"

text \<open>
  \<open>allocateFromDead\<close>: walks the dead cells of one chunk. The result pointer 0 is
  \<open>nullptr\<close>. The walk follows links stored in memory; \<open>None\<close> stands for a walk that
  does not end within the given number of steps.
\<close>

fun allocateFromDead_loop ::
  "nat \<Rightarrow> 16 word \<Rightarrow> 16 word \<Rightarrow> chunk \<Rightarrow> memory \<Rightarrow> 32 word \<Rightarrow> 16 word \<Rightarrow> 16 word \<Rightarrow> 16 word \<Rightarrow> 16 word
     \<Rightarrow> (nat \<times> chunk \<times> memory \<times> 32 word) option" where
  "allocateFromDead_loop 0 cs sz c m td curDead prevDead smallestDead smallestSize = None"
| "allocateFromDead_loop (Suc n) cs sz c m td curDead prevDead smallestDead smallestSize =
     (if curDead < cs then
        (let deadCell = data c + unat curDead;
             deadSize = DeadCell_getSize m deadCell
         in if deadSize = sz then
              (if prevDead \<ge> cs
               then Some (data c + unat curDead,
                          c\<lparr>firstDead := DeadCell_getNext m deadCell, totalDead := totalDead c - sz\<rparr>,
                          m, td - ucast sz)
               else Some (data c + unat curDead,
                          c\<lparr>totalDead := totalDead c - sz\<rparr>,
                          DeadCell_setNext m (data c + unat prevDead) (DeadCell_getNext m deadCell),
                          td - ucast sz))
            else if (ucast deadSize :: 32 word) \<ge> ucast sz * 2 then
              (let deadSize' = deadSize - sz
               in Some (data c + unat curDead + unat deadSize',
                        c\<lparr>totalDead := totalDead c - sz\<rparr>,
                        DeadCell_setSize m deadCell deadSize', td - ucast sz))
            else if deadSize < smallestSize \<and> deadSize > sz
              then allocateFromDead_loop n cs sz c m td (DeadCell_getNext m deadCell) curDead curDead deadSize
              else allocateFromDead_loop n cs sz c m td (DeadCell_getNext m deadCell) curDead
                     smallestDead smallestSize)
      else if smallestDead < cs then
        (let newDeadCell = data c + unat smallestDead;
             smallestSize' = smallestSize - sz
         in Some (data c + unat smallestDead + unat smallestSize',
                  c\<lparr>totalDead := totalDead c - sz\<rparr>,
                  DeadCell_setSize m newDeadCell smallestSize', td - ucast sz))
      else Some (0, c, m, td))"

definition allocateFromDead ::
  "16 word \<Rightarrow> chunk \<Rightarrow> memory \<Rightarrow> 32 word \<Rightarrow> 16 word \<Rightarrow> (nat \<times> chunk \<times> memory \<times> 32 word) option" where
  "allocateFromDead cs c m td sz =
     (if totalDead c \<ge> sz
      then allocateFromDead_loop (Suc (unat cs)) cs sz c m td (firstDead c) cs cs cs
      else Some (0, c, m, td))"

text \<open>\<open>allocateFromDead\<close> applied to the chunk at index \<open>i\<close> of the allocator.\<close>

definition allocateFromDead_at :: "16 word \<Rightarrow> pool_allocator \<Rightarrow> nat \<Rightarrow> 16 word \<Rightarrow> (nat \<times> pool_allocator) option" where
  "allocateFromDead_at cs pa i sz =
     (case allocateFromDead cs (mChunks pa ! i) (mem pa) (mTotalDead pa) sz of
        None \<Rightarrow> None
      | Some (p, c', m', td') \<Rightarrow>
          Some (p, pa\<lparr>mChunks := (mChunks pa)[i := c'], mem := m', mTotalDead := td'\<rparr>))"

text \<open>The loop "check other chunks: available" of \<open>allocate\<close>, over the indices \<open>is\<close>.\<close>

fun others_available :: "16 word \<Rightarrow> pool_allocator \<Rightarrow> 16 word \<Rightarrow> nat list \<Rightarrow> (nat \<times> nat \<times> pool_allocator) option" where
  "others_available cs pa sz [] = None"
| "others_available cs pa sz (i # is) =
     (if of_nat i \<noteq> mLastChunk pa \<and> avail cs (mChunks pa ! i) \<ge> sz
      then (let c = mChunks pa ! i
            in Some (i, unat (firstAvail c),
                     pa\<lparr>mLastChunk := of_nat i,
                        mChunks := (mChunks pa)[i := c\<lparr>firstAvail := firstAvail c + sz\<rparr>]\<rparr>))
      else others_available cs pa sz is)"

text \<open>
  The loop "check other chunks: dead" of \<open>allocate\<close>. The outer \<open>option\<close> is the
  termination of the walks, the inner one whether a region was found.
\<close>

fun others_dead :: "16 word \<Rightarrow> pool_allocator \<Rightarrow> 16 word \<Rightarrow> nat list \<Rightarrow> ((nat \<times> nat \<times> pool_allocator) option) option" where
  "others_dead cs pa sz [] = Some None"
| "others_dead cs pa sz (i # is) =
     (if of_nat i \<noteq> mLastChunk pa
      then (case allocateFromDead_at cs pa i sz of
              None \<Rightarrow> None
            | Some (p, pa') \<Rightarrow> if p \<noteq> 0 then Some (Some (i, p, pa')) else others_dead cs pa' sz is)
      else others_dead cs pa sz is)"

text \<open>
  Growth of the chunk vector: \<open>(uint32_t)std::ceil(mChunksCapacity * 1.5f)\<close>. The float
  product is exact for capacities below \<open>2^22\<close>, where it is \<open>\<lceil>3c/2\<rceil>\<close>.
\<close>

definition grow_vector :: "32 word \<Rightarrow> 32 word" where
  "grow_vector c = (3 * c + 1) div 2"

text \<open>The tail of \<open>allocate\<close>: create a new chunk and take its first bytes.\<close>

definition new_chunk :: "16 word \<Rightarrow> pool_allocator \<Rightarrow> 16 word \<Rightarrow> nat \<times> pool_allocator" where
  "new_chunk cs pa sz =
     (let pa1 = (if mChunksCount pa \<ge> mChunksCapacity pa
                 then (snd (base_allocate pa))\<lparr>mChunksCapacity := grow_vector (mChunksCapacity pa)\<rparr>
                 else pa);
          (ptr, pa2) = base_allocate pa1;
          (chunks, idx) = sortNewChunk cs pa2 (Chunk cs ptr);
          c = chunks ! idx
      in (data c, pa2\<lparr>mLastChunk := of_nat idx,
                       mChunks := chunks[idx := c\<lparr>firstAvail := firstAvail c + sz\<rparr>]\<rparr>))"

definition allocate :: "16 word \<Rightarrow> pool_allocator \<Rightarrow> 32 word \<Rightarrow> (nat \<times> pool_allocator) option" where
  "allocate cs pa0 sz =
     (let alignedSize = alignSize sz in
      if chunkable cs alignedSize then
        (let pa = (if mChunksCapacity pa0 = 0
                   then (let (vec, pa1) = base_allocate pa0;
                             (ptr, pa2) = base_allocate pa1
                         in pa2\<lparr>mChunksCapacity := 1, mChunks := [Chunk cs ptr], mLastChunk := 0\<rparr>)
                   else pa0);
             last = unat (mLastChunk pa);
             lc = mChunks pa ! last;
             sz16 = (ucast alignedSize :: 16 word)
         in if avail cs lc \<ge> sz16
            then Some (data lc + unat (firstAvail lc),
                       pa\<lparr>mChunks := (mChunks pa)[last := lc\<lparr>firstAvail := firstAvail lc + sz16\<rparr>]\<rparr>)
            else (case allocateFromDead_at cs pa last sz16 of
                    None \<Rightarrow> None
                  | Some (p, pa') \<Rightarrow>
                      if p \<noteq> 0 then Some (p, pa')
                      else (case others_available cs pa' sz16 [0 ..< length (mChunks pa')] of
                              Some (i, pos, pa'') \<Rightarrow> Some (data (mChunks pa'' ! i) + pos, pa'')
                            | None \<Rightarrow>
                                (if mTotalDead pa' \<ge> alignedSize
                                 then (case others_dead cs pa' sz16 [0 ..< length (mChunks pa')] of
                                         None \<Rightarrow> None
                                       | Some (Some (i, p', pa'')) \<Rightarrow> Some (p', pa'')
                                       | Some None \<Rightarrow> Some (new_chunk cs pa' sz16))
                                 else Some (new_chunk cs pa' sz16)))))
      else
        (let (raw, pa1) = base_allocate pa0
         in Some (raw + 12, pa1\<lparr>mFallbacks := (raw, sz) # mFallbacks pa1\<rparr>)))"

text \<open>\<open>deallocate\<close>, chunk part: the three cases "empty", "restore to avail", "add to dead".\<close>

definition release_in_chunk :: "16 word \<Rightarrow> pool_allocator \<Rightarrow> nat \<Rightarrow> nat \<Rightarrow> 32 word \<Rightarrow> pool_allocator" where
  "release_in_chunk cs pa ptrIdx pos alignedSize =
     (let c = mChunks pa ! ptrIdx in
      if (ucast (totalDead c) :: 32 word) + alignedSize = ucast (firstAvail c) then
        (let pa1 = pa\<lparr>mTotalDead := mTotalDead pa - ucast (totalDead c),
                      mChunks := (mChunks pa)[ptrIdx := c\<lparr>firstAvail := 0, firstDead := cs, totalDead := 0\<rparr>]\<rparr>
         in if mLastChunk pa1 = of_nat ptrIdx \<and> mChunksCount pa1 > 1 then
              (let prevIdx = (mLastChunk pa1 - 1) mod mChunksCount pa1 in
               if firstAvail (mChunks pa1 ! unat prevIdx) < cs then pa1\<lparr>mLastChunk := prevIdx\<rparr>
               else (let nextIdx = (mLastChunk pa1 + 1) mod mChunksCount pa1 in
                     if firstAvail (mChunks pa1 ! unat nextIdx) < cs then pa1\<lparr>mLastChunk := nextIdx\<rparr>
                     else pa1))
            else pa1)
      else if (of_nat pos :: 32 word) + alignedSize = ucast (firstAvail c) then
        pa\<lparr>mChunks := (mChunks pa)[ptrIdx := c\<lparr>firstAvail := of_nat pos\<rparr>]\<rparr>
      else
        pa\<lparr>mem := DeadCell_setNext (DeadCell_setSize (mem pa) (data c + pos) (ucast alignedSize))
                      (data c + pos) (firstDead c),
           mTotalDead := mTotalDead pa + alignedSize,
           mChunks := (mChunks pa)[ptrIdx := c\<lparr>firstDead := of_nat pos,
                                               totalDead := totalDead c + ucast alignedSize\<rparr>]\<rparr>)"

text \<open>Unlinking the fallback record whose payload is at \<open>ptr\<close>; unchanged when absent.\<close>

fun remove_fallback :: "nat \<Rightarrow> (nat \<times> 32 word) list \<Rightarrow> (nat \<times> 32 word) list" where
  "remove_fallback ptr [] = []"
| "remove_fallback ptr (f # fs) = (if fst f + 12 = ptr then fs else f # remove_fallback ptr fs)"

definition deallocate :: "16 word \<Rightarrow> pool_allocator \<Rightarrow> nat \<Rightarrow> 32 word \<Rightarrow> error + pool_allocator" where
  "deallocate cs pa ptr sz =
     (if ptr = 0 then Inr pa
      else (let alignedSize = alignSize sz in
            if chunkable cs alignedSize then
              (case findChunk cs pa ptr of
                 (True, ptrIdx) \<Rightarrow> Inr (release_in_chunk cs pa ptrIdx (ptr - data (mChunks pa ! ptrIdx)) alignedSize)
               | (False, ptrIdx) \<Rightarrow> Inl OutOfBounds)
            else Inr (pa\<lparr>mFallbacks := remove_fallback ptr (mFallbacks pa)\<rparr>)))"


section \<open>Dead-cell recycling scenarios\<close>

text \<open>
  A fresh allocator with 64-byte chunks: three 16-byte regions \<open>A\<close>, \<open>B\<close>, \<open>C\<close>
  are allocated, \<open>B\<close> is deallocated, and 15 bytes are allocated. The result is the
  four addresses and \<open>totalDead()\<close>.
\<close>

definition three_regions_scenario :: "(nat \<Rightarrow> nat) \<Rightarrow> (nat \<times> nat \<times> nat \<times> nat \<times> 32 word) option" where
  "three_regions_scenario b =
     (case allocate 64 (PoolAllocator b) 16 of None \<Rightarrow> None | Some (A, pa1) \<Rightarrow>
      (case allocate 64 pa1 16 of None \<Rightarrow> None | Some (B, pa2) \<Rightarrow>
       (case allocate 64 pa2 16 of None \<Rightarrow> None | Some (C, pa3) \<Rightarrow>
        (case deallocate 64 pa3 B 16 of Inl e \<Rightarrow> None | Inr pa4 \<Rightarrow>
         (case allocate 64 pa4 15 of None \<Rightarrow> None | Some (N, pa5) \<Rightarrow>
            Some (A, B, C, N, totalDead_of pa5))))))"

text \<open>The same with a fourth 16-byte region \<open>D\<close>, which fills the chunk.\<close>

definition four_regions_scenario :: "(nat \<Rightarrow> nat) \<Rightarrow> (nat \<times> nat \<times> nat \<times> nat \<times> nat \<times> 32 word) option" where
  "four_regions_scenario b =
     (case allocate 64 (PoolAllocator b) 16 of None \<Rightarrow> None | Some (A, pa1) \<Rightarrow>
      (case allocate 64 pa1 16 of None \<Rightarrow> None | Some (B, pa2) \<Rightarrow>
       (case allocate 64 pa2 16 of None \<Rightarrow> None | Some (C, pa3) \<Rightarrow>
        (case allocate 64 pa3 16 of None \<Rightarrow> None | Some (D, pa4) \<Rightarrow>
         (case deallocate 64 pa4 B 16 of Inl e \<Rightarrow> None | Inr pa5 \<Rightarrow>
          (case allocate 64 pa5 15 of None \<Rightarrow> None | Some (N, pa6) \<Rightarrow>
             Some (A, B, C, D, N, totalDead_of pa6)))))))"

text \<open>A base allocator that returns page-aligned addresses.\<close>

definition page_base :: "nat \<Rightarrow> nat" where
  "page_base k = 4096 * Suc k"

section \<open>Float arithmetic on counts\<close>

text \<open>
  Capacities and bucket counts grow through \<open>float\<close> products such as
  \<open>(uint32_t)std::ceil(capacity * 1.5f)\<close>. A \<open>float\<close> keeps 24 significant bits, so the
  conversion of an integer and the product round to 24 significant bits, ties to even.
  \<open>round_sig24\<close> is that rounding on natural numbers; scaling by a power of two is exact.
\<close>

fun bit_length :: "nat \<Rightarrow> nat" where
  "bit_length n = (if n = 0 then 0 else Suc (bit_length (n div 2)))"

declare bit_length.simps [simp del]

definition round_sig24 :: "nat \<Rightarrow> nat" where
  "round_sig24 n =
     (if n < 2 ^ 24 then n
      else (let e = bit_length n - 24; q = n div 2 ^ e; r = n mod 2 ^ e; half = 2 ^ (e - 1)
            in (if r > half \<or> (r = half \<and> odd q) then q + 1 else q) * 2 ^ e))"

text \<open>\<open>(uint32_t)std::ceil(c * 1.5f)\<close> and \<open>(uint32_t)(c * 1.5f)\<close>, in halves.\<close>

definition ceil_times_1_5 :: "nat \<Rightarrow> nat" where
  "ceil_times_1_5 c = (round_sig24 (3 * round_sig24 c) + 1) div 2"

definition trunc_times_1_5 :: "nat \<Rightarrow> nat" where
  "trunc_times_1_5 c = round_sig24 (3 * round_sig24 c) div 2"

section \<open>JString (JString.h)\<close>

text \<open>
  A string object: the two flags, the bytes (\<open>len()\<close> is their number), and the address
  of the object, which is what a \<open>const JString*\<close> compares by. For a string that
  is not owned the bytes are the caller's; the caller guarantees that they do not change
  while the pool holds the entry. The 30-bit length field holds lengths up to
  \<open>LFJ_JSTRING_MAX_LEN\<close>.
\<close>

record jstring =
  owns  :: bool
  isKey :: bool
  c_str :: string
  addr  :: nat

definition LFJ_JSTRING_MAX_LEN :: nat where
  "LFJ_JSTRING_MAX_LEN = 1073741823"

definition len :: "jstring \<Rightarrow> nat" where
  "len js = length (c_str js)"

definition updateIsKey :: "jstring \<Rightarrow> bool \<Rightarrow> jstring" where
  "updateIsKey js key = js\<lparr>isKey := isKey js \<or> key\<rparr>"

text \<open>\<open>std::memcmp\<close> on two byte strings of the same length, by its sign.\<close>

fun memcmp :: "string \<Rightarrow> string \<Rightarrow> int" where
  "memcmp (a # as) (b # bs) =
     (if (of_char a :: nat) < of_char b then -1
      else if (of_char a :: nat) > of_char b then 1
      else memcmp as bs)"
| "memcmp _ _ = 0"

definition compare :: "jstring \<Rightarrow> string \<Rightarrow> int" where
  "compare js other =
     (let infoLen = len js in
      if infoLen < length other then -1
      else if infoLen > length other then 1
      else memcmp (c_str js) other)"

section \<open>C strings and length arguments\<close>

text \<open>
  A \<open>const char*\<close> argument is the list of the bytes at the pointer up to, and without,
  a terminator that follows them; the list may itself contain NUL bytes, which end a scan
  earlier. A length argument is \<open>int32_t\<close>, negative (\<open>-1\<close>) for "scan to NUL".
\<close>

definition nul_byte :: char where
  "nul_byte = CHR 0x00"

definition strlen :: "string \<Rightarrow> nat" where
  "strlen s = length (takeWhile (\<lambda>c. c \<noteq> nul_byte) s)"

text \<open>
  The bytes that \<open>computeHash\<close> and the string constructors read for \<open>(str, len)\<close>:
  reading past the terminator of the argument is out of bounds.
\<close>

definition string_bytes :: "string \<Rightarrow> int \<Rightarrow> error + string" where
  "string_bytes str n =
     (if n \<ge> 0 then (if nat n \<le> Suc (length str) then Inr (take (nat n) (str @ [nul_byte])) else Inl OutOfBounds)
      else Inr (takeWhile (\<lambda>c. c \<noteq> nul_byte) str))"

section \<open>StringPool (StringPool.h)\<close>

text \<open>
  A bucket is the head of a chain of string objects linked through \<open>next\<close>; it is
  represented by the list of the objects of the chain in link order, and the bucket array
  by the list of its chains (\<open>mBucketCount\<close> is its length). The pool's allocator hands
  out the storage of the objects: the address returned by its \<open>k\<close>-th \<open>allocateAlt\<close>
  is \<open>allocAddr k\<close>, for an arbitrary function; \<open>deallocateAlt\<close> has no effect on the
  chains. \<open>mMaxLoadFactor\<close> is \<open>DefaultMaxLoadFactor = 1.5f\<close>. The counter
  \<open>mItemCount\<close> is a \<open>uint32_t\<close> that the code asserts not to overflow; it is a
  natural number here.

  The hash function is a parameter \<open>h\<close> of the operations: XXH3 (low 32 bits) by
  default, whose code is not part of the repository, or FNV-1a under \<open>LFJ_NO_XXHASH\<close>.
\<close>

record string_pool =
  mItemCount :: nat
  mBuckets   :: "jstring list list"
  allocAddr  :: "nat \<Rightarrow> nat"
  allocCalls :: nat

definition mBucketCount :: "string_pool \<Rightarrow> nat" where
  "mBucketCount p = length (mBuckets p)"

definition StartingBucketCount :: nat where
  "StartingBucketCount = 16"

definition StringPool :: "(nat \<Rightarrow> nat) \<Rightarrow> string_pool" where
  "StringPool a = \<lparr>mItemCount = 0, mBuckets = [], allocAddr = a, allocCalls = 0\<rparr>"

definition StringPool_init :: "(nat \<Rightarrow> nat) \<Rightarrow> nat \<Rightarrow> string_pool" where
  "StringPool_init a initBucketCount =
     \<lparr>mItemCount = 0, mBuckets = replicate initBucketCount [], allocAddr = a,
      allocCalls = (if initBucketCount > 0 then 1 else 0)\<rparr>"

definition pool_size :: "string_pool \<Rightarrow> nat" where
  "pool_size p = mItemCount p"

definition fnv1a_32_len :: "string \<Rightarrow> 32 word" where
  "fnv1a_32_len str = foldl (\<lambda>hash c. (hash XOR of_nat (of_char c)) * 16777619) 2166136261 str"

definition fastMod :: "32 word \<Rightarrow> nat \<Rightarrow> nat" where
  "fastMod input ceil = unat input mod ceil"

text \<open>\<open>pushNewString\<close>: links an existing object into a chain of the new bucket array.\<close>

fun pushNewString :: "jstring \<Rightarrow> jstring list \<Rightarrow> jstring list" where
  "pushNewString jstr [] = [jstr]"
| "pushNewString jstr (it # rest) =
     (if compare it (c_str jstr) > 0 then jstr # it # rest
      else it # pushNewString jstr rest)"

definition rehash_string :: "(string \<Rightarrow> 32 word) \<Rightarrow> jstring list list \<Rightarrow> jstring \<Rightarrow> jstring list list" where
  "rehash_string h newBuckets it =
     (let newIndex = fastMod (h (c_str it)) (length newBuckets)
      in newBuckets[newIndex := pushNewString it (newBuckets ! newIndex)])"

text \<open>
  The loop of \<open>rehash\<close> over the old buckets: it runs while \<open>count < mItemCount\<close>, and
  reads \<open>mBuckets[index]\<close> for the next index.
\<close>

fun rehash_loop ::
  "(string \<Rightarrow> 32 word) \<Rightarrow> jstring list list \<Rightarrow> nat \<Rightarrow> nat \<Rightarrow> jstring list list \<Rightarrow> error + jstring list list" where
  "rehash_loop h [] cnt items newBuckets =
     (if cnt < items then Inl OutOfBounds else Inr newBuckets)"
| "rehash_loop h (chain # rest) cnt items newBuckets =
     (if cnt < items then
        (if chain \<noteq> [] \<and> newBuckets = [] then Inl OutOfBounds
         else rehash_loop h rest (cnt + length chain) items (foldl (rehash_string h) newBuckets chain))
      else Inr newBuckets)"

definition rehash :: "(string \<Rightarrow> 32 word) \<Rightarrow> string_pool \<Rightarrow> nat \<Rightarrow> error + string_pool" where
  "rehash h p newBucketCount =
     (case rehash_loop h (mBuckets p) 0 (mItemCount p) (replicate newBucketCount []) of
        Inl e \<Rightarrow> Inl e
      | Inr newBuckets \<Rightarrow> Inr (p\<lparr>mBuckets := newBuckets, allocCalls := Suc (allocCalls p)\<rparr>))"

text \<open>
  The first part of \<open>provide\<close>, "grow (by anticipation)". \<open>GrowthFactor\<close> is \<open>2.f\<close>;
  \<open>std::numeric_limits<uint32_t>::max() / GrowthFactor\<close> is \<open>2^31\<close> as a float.
\<close>

definition grow :: "(string \<Rightarrow> 32 word) \<Rightarrow> string_pool \<Rightarrow> error + string_pool" where
  "grow h p =
     (if mItemCount p + 1 > trunc_times_1_5 (mBucketCount p) then
        (if round_sig24 (mBucketCount p) < 2 ^ 31
         then rehash h p (if mBucketCount p > 0 then 2 * round_sig24 (mBucketCount p) else StartingBucketCount)
         else Inr p)
      else Inr p)"

text \<open>
  The chain walk of \<open>provide\<close>: "check head" and "check separate chaining". \<open>new\<close> is
  the object that \<open>createString\<close> constructs when the walk has to insert. Returns the
  \<open>found\<close> flag, the object returned and the chain.
\<close>

fun provide_chain :: "jstring \<Rightarrow> bool \<Rightarrow> jstring list \<Rightarrow> bool \<times> jstring \<times> jstring list" where
  "provide_chain new key [] = (False, new, [new])"
| "provide_chain new key (it # rest) =
     (let res = compare it (c_str new) in
      if res = 0 then (True, updateIsKey it key, updateIsKey it key # rest)
      else if res > 0 then (False, new, new # it # rest)
      else (case provide_chain new key rest of (found, js, rest') \<Rightarrow> (found, js, it # rest')))"

text \<open>\<open>provide\<close> on the bytes \<open>str\<close> of the string; returns the object and \<open>found\<close>.\<close>

definition provide_bytes ::
  "(string \<Rightarrow> 32 word) \<Rightarrow> string_pool \<Rightarrow> string \<Rightarrow> bool \<Rightarrow> bool \<Rightarrow> error + ((jstring \<times> bool) \<times> string_pool)" where
  "provide_bytes h p0 str own key =
     (case grow h p0 of
        Inl e \<Rightarrow> Inl e
      | Inr p \<Rightarrow>
          if mBucketCount p = 0 then Inl OutOfBounds
          else (let index = fastMod (h str) (mBucketCount p);
                    new = \<lparr>owns = own, isKey = key, c_str = str, addr = allocAddr p (allocCalls p)\<rparr>
                in case provide_chain new key (mBuckets p ! index) of
                     (found, js, chain) \<Rightarrow>
                       if found then Inr ((js, True), p\<lparr>mBuckets := (mBuckets p)[index := chain]\<rparr>)
                       else Inr ((js, False),
                                 p\<lparr>mBuckets := (mBuckets p)[index := chain],
                                    mItemCount := mItemCount p + 1,
                                    allocCalls := Suc (allocCalls p)\<rparr>)))"

definition provide ::
  "(string \<Rightarrow> 32 word) \<Rightarrow> string_pool \<Rightarrow> string \<Rightarrow> bool \<Rightarrow> bool \<Rightarrow> int \<Rightarrow> error + ((jstring \<times> bool) \<times> string_pool)" where
  "provide h p str own key n =
     (case string_bytes str n of
        Inl e \<Rightarrow> Inl e
      | Inr bytes \<Rightarrow> provide_bytes h p bytes own key)"

text \<open>\<open>get_\<close>: the read-only lookup; \<open>None\<close> is \<open>nullptr\<close>.\<close>

definition get_bytes :: "(string \<Rightarrow> 32 word) \<Rightarrow> string_pool \<Rightarrow> string \<Rightarrow> error + jstring option" where
  "get_bytes h p str =
     (if mItemCount p = 0 then Inr None
      else if mBucketCount p = 0 then Inl OutOfBounds
      else Inr (find (\<lambda>it. compare it str = 0) (mBuckets p ! fastMod (h str) (mBucketCount p))))"

definition get :: "(string \<Rightarrow> 32 word) \<Rightarrow> string_pool \<Rightarrow> string \<Rightarrow> int \<Rightarrow> error + jstring option" where
  "get h p str n =
     (case string_bytes str n of
        Inl e \<Rightarrow> Inl e
      | Inr bytes \<Rightarrow> get_bytes h p bytes)"

text \<open>
  \<open>releaseValues\<close> on one chain: the "Head" loop unlinks leading objects that are not
  keys, the "Remaining" loop unlinks the others behind the first key. Both return the
  chain and the decremented item count.
\<close>

fun releaseValues_head :: "jstring list \<Rightarrow> nat \<Rightarrow> jstring list \<times> nat" where
  "releaseValues_head [] cnt = ([], cnt)"
| "releaseValues_head (it # rest) cnt =
     (if \<not> isKey it then releaseValues_head rest (cnt - 1) else (it # rest, cnt))"

fun releaseValues_remaining :: "jstring list \<Rightarrow> nat \<Rightarrow> jstring list \<times> nat" where
  "releaseValues_remaining [] cnt = ([], cnt)"
| "releaseValues_remaining (itNext # rest) cnt =
     (if \<not> isKey itNext then releaseValues_remaining rest (cnt - 1)
      else (case releaseValues_remaining rest cnt of (rest', cnt') \<Rightarrow> (itNext # rest', cnt')))"

definition releaseValues_chain :: "jstring list \<Rightarrow> nat \<Rightarrow> jstring list \<times> nat" where
  "releaseValues_chain chain cnt =
     (case releaseValues_head chain cnt of
        ([], cnt') \<Rightarrow> ([], cnt')
      | (it # rest, cnt') \<Rightarrow>
          (case releaseValues_remaining rest cnt' of (rest', cnt'') \<Rightarrow> (it # rest', cnt'')))"

fun releaseValues_buckets :: "jstring list list \<Rightarrow> nat \<Rightarrow> jstring list list \<times> nat" where
  "releaseValues_buckets [] cnt = ([], cnt)"
| "releaseValues_buckets (chain # rest) cnt =
     (case releaseValues_chain chain cnt of
        (chain', cnt') \<Rightarrow>
          (case releaseValues_buckets rest cnt' of (rest', cnt'') \<Rightarrow> (chain' # rest', cnt'')))"

definition releaseValues :: "string_pool \<Rightarrow> string_pool" where
  "releaseValues p =
     (case releaseValues_buckets (mBuckets p) (mItemCount p) of
        (buckets, cnt) \<Rightarrow> p\<lparr>mBuckets := buckets, mItemCount := cnt\<rparr>)"
section \<open>Invariants of the string pool\<close>

text \<open>
  The order of the specification on byte strings: length first, then lexicographic on
  the bytes as unsigned values.
\<close>

definition byte_rel :: "(char \<times> char) set" where
  "byte_rel = {(x, y). (of_char x :: nat) < of_char y}"

definition bytes_less :: "string \<Rightarrow> string \<Rightarrow> bool" where
  "bytes_less a b \<longleftrightarrow> length a < length b \<or> (length a = length b \<and> (a, b) \<in> lexord byte_rel)"

definition chain_sorted :: "jstring list \<Rightarrow> bool" where
  "chain_sorted chain = sorted_wrt (\<lambda>x y. bytes_less (c_str x) (c_str y)) chain"

definition pool_strings :: "string_pool \<Rightarrow> jstring list" where
  "pool_strings p = concat (mBuckets p)"

definition chains_sorted :: "string_pool \<Rightarrow> bool" where
  "chains_sorted p \<longleftrightarrow> (\<forall>chain\<in>set (mBuckets p). chain_sorted chain)"

definition no_duplicates :: "string_pool \<Rightarrow> bool" where
  "no_duplicates p \<longleftrightarrow> distinct (map c_str (pool_strings p))"

definition count_matches :: "string_pool \<Rightarrow> bool" where
  "count_matches p \<longleftrightarrow> mItemCount p = length (pool_strings p)"

text \<open>Every string is linked from the bucket that its hash selects.\<close>

definition well_placed :: "(string \<Rightarrow> 32 word) \<Rightarrow> jstring list list \<Rightarrow> bool" where
  "well_placed h bs \<longleftrightarrow> (\<forall>i<length bs. \<forall>js\<in>set (bs ! i). fastMod (h (c_str js)) (length bs) = i)"

definition pool_inv :: "(string \<Rightarrow> 32 word) \<Rightarrow> string_pool \<Rightarrow> bool" where
  "pool_inv h p \<longleftrightarrow> chains_sorted p \<and> no_duplicates p \<and> count_matches p \<and> well_placed h (mBuckets p)"

definition buckets_inv :: "(string \<Rightarrow> 32 word) \<Rightarrow> jstring list list \<Rightarrow> bool" where
  "buckets_inv h bs \<longleftrightarrow> (\<forall>chain\<in>set bs. chain_sorted chain) \<and> distinct (map c_str (concat bs)) \<and> well_placed h bs"

text \<open>What identifies a pooled string to its users: its bytes and its address.\<close>

definition ident :: "jstring \<Rightarrow> string \<times> nat" where
  "ident js = (c_str js, addr js)"

text \<open>A pool with one bucket holding a value string and a key string.\<close>

definition example_pool :: string_pool where
  "example_pool =
     \<lparr>mItemCount = 2,
      mBuckets = [[\<lparr>owns = False, isKey = False, c_str = ''hello'', addr = 1\<rparr>,
                   \<lparr>owns = True, isKey = True, c_str = ''world!'', addr = 2\<rparr>]],
      allocAddr = (\<lambda>k. k), allocCalls = 3\<rparr>"

section \<open>JValue (BaseData.h)\<close>

datatype JType =
  OBJECT | ARRAY | BARRAY | IARRAY | DARRAY | SSTRING | LSTRING | INT64 | UINT64 | DOUBLE
  | TRUE | FALSE | NUL

type_synonym int64 = "64 word"    \<comment> \<open>two's complement\<close>
type_synonym uint64 = "64 word"
type_synonym double = "64 word"   \<comment> \<open>the IEEE-754 binary64 bit pattern\<close>

text \<open>
  \<open>sizeof(Number)\<close> is 16 on the 64-bit target (tag, padding, an 8-byte scalar aligned
  to 8), so \<open>ShortString::MaxSize = sizeof(Number) - 1\<close> is 15 and \<open>MaxLen\<close> is 14.
\<close>

definition sizeof_Number :: nat where
  "sizeof_Number = 16"

definition ShortString_MaxSize :: nat where
  "ShortString_MaxSize = sizeof_Number - 1"

definition ShortString_MaxLen :: nat where
  "ShortString_MaxLen = ShortString_MaxSize - 1"

definition isShort :: "nat \<Rightarrow> bool" where
  "isShort n \<longleftrightarrow> ShortString_MaxLen \<ge> n"

text \<open>
  The editor's view of a value cell. A container carries the live elements of its buffer
  (\<open>size\<close> is their number) and its capacity, whether the buffer is inline or a Big
  descriptor; allocation, copying and release of buffers keep the live elements and show
  only as a change of capacity. A member is the address of its key's \<open>JString\<close> and
  its value. A long string holds the address of the pooled \<open>JString\<close> whose bytes it
  points to, and the length.
\<close>

datatype jvalue =
    JObject "(nat \<times> jvalue) list" nat
  | JArray "jvalue list" nat
  | JBArray "bool list" nat
  | JIArray "int64 list" nat
  | JDArray "double list" nat
  | JShortString string
  | JLongString nat nat
  | JInt64 int64
  | JUInt64 uint64
  | JDouble double
  | JTrue
  | JFalse
  | JNul

fun type :: "jvalue \<Rightarrow> JType" where
  "type (JObject ms c) = OBJECT"
| "type (JArray es c) = ARRAY"
| "type (JBArray es c) = BARRAY"
| "type (JIArray es c) = IARRAY"
| "type (JDArray es c) = DARRAY"
| "type (JShortString s) = SSTRING"
| "type (JLongString a n) = LSTRING"
| "type (JInt64 i) = INT64"
| "type (JUInt64 u) = UINT64"
| "type (JDouble d) = DOUBLE"
| "type JTrue = TRUE"
| "type JFalse = FALSE"
| "type JNul = NUL"

definition isNul :: "jvalue \<Rightarrow> bool" where
  "isNul v \<longleftrightarrow> type v = NUL"

text \<open>The size accessors; each reads a union member and is meaningful under its tag only.\<close>

fun arraySize :: "jvalue \<Rightarrow> error + nat" where
  "arraySize (JArray es c) = Inr (length es)"
| "arraySize _ = Inl BadTag"

fun barraySize :: "jvalue \<Rightarrow> error + nat" where
  "barraySize (JBArray es c) = Inr (length es)"
| "barraySize _ = Inl BadTag"

fun iarraySize :: "jvalue \<Rightarrow> error + nat" where
  "iarraySize (JIArray es c) = Inr (length es)"
| "iarraySize _ = Inl BadTag"

fun darraySize :: "jvalue \<Rightarrow> error + nat" where
  "darraySize (JDArray es c) = Inr (length es)"
| "darraySize _ = Inl BadTag"

fun objectSize :: "jvalue \<Rightarrow> error + nat" where
  "objectSize (JObject ms c) = Inr (length ms)"
| "objectSize _ = Inl BadTag"

fun arrayCapacity :: "jvalue \<Rightarrow> error + nat" where
  "arrayCapacity (JArray es c) = Inr c"
| "arrayCapacity _ = Inl BadTag"

fun objectCapacity :: "jvalue \<Rightarrow> error + nat" where
  "objectCapacity (JObject ms c) = Inr c"
| "objectCapacity _ = Inl BadTag"

text \<open>
  The unchecked element accessors \<open>operator[]\<close>, \<open>arrayBool\<close>, \<open>arrayInt64\<close>,
  \<open>arrayDouble\<close>, \<open>member\<close>: outside the live elements they read storage that holds
  no element.
\<close>

fun aValue :: "jvalue \<Rightarrow> nat \<Rightarrow> error + jvalue" where
  "aValue (JArray es c) i = (if i < length es then Inr (es ! i) else Inl OutOfBounds)"
| "aValue _ i = Inl BadTag"

fun arrayBool :: "jvalue \<Rightarrow> nat \<Rightarrow> error + bool" where
  "arrayBool (JBArray es c) i = (if i < length es then Inr (es ! i) else Inl OutOfBounds)"
| "arrayBool _ i = Inl BadTag"

fun arrayInt64 :: "jvalue \<Rightarrow> nat \<Rightarrow> error + int64" where
  "arrayInt64 (JIArray es c) i = (if i < length es then Inr (es ! i) else Inl OutOfBounds)"
| "arrayInt64 _ i = Inl BadTag"

fun arrayDouble :: "jvalue \<Rightarrow> nat \<Rightarrow> error + double" where
  "arrayDouble (JDArray es c) i = (if i < length es then Inr (es ! i) else Inl OutOfBounds)"
| "arrayDouble _ i = Inl BadTag"

fun jmember :: "jvalue \<Rightarrow> nat \<Rightarrow> error + (nat \<times> jvalue)" where
  "jmember (JObject ms c) i = (if i < length ms then Inr (ms ! i) else Inl OutOfBounds)"
| "jmember _ i = Inl BadTag"

text \<open>\<open>JValue::minStringLength\<close>: the scan stops at \<open>ShortString_MaxSize\<close>.\<close>

function minStringLength_from :: "nat \<Rightarrow> string \<Rightarrow> nat" where
  "minStringLength_from minLen s =
     (if minLen < ShortString_MaxSize
      then (if (s @ [nul_byte]) ! min minLen (length s) = nul_byte then minLen
            else minStringLength_from (Suc minLen) s)
      else minLen)"
  by pat_completeness auto
termination
  by (relation "measure (\<lambda>(minLen, s). ShortString_MaxSize - minLen)") auto

declare minStringLength_from.simps [simp del]

definition minStringLength :: "string \<Rightarrow> nat" where
  "minStringLength s = minStringLength_from 0 s"

text \<open>\<open>set(JType)\<close>: an empty container of the given tag.\<close>

fun set_type :: "JType \<Rightarrow> error + jvalue" where
  "set_type OBJECT = Inr (JObject [] 0)"
| "set_type ARRAY = Inr (JArray [] 0)"
| "set_type BARRAY = Inr (JBArray [] 0)"
| "set_type IARRAY = Inr (JIArray [] 0)"
| "set_type DARRAY = Inr (JDArray [] 0)"
| "set_type _ = Inl BadTag"

text \<open>
  \<open>incASize\<close> and \<open>incOSize\<close>: the new element is written at index \<open>size\<close> of the
  buffer, which exists when the capacity exceeds the size.
\<close>

fun incASize :: "jvalue \<Rightarrow> error + jvalue" where
  "incASize (JArray es c) = (if c > length es then Inr (JArray (es @ [JNul]) c) else Inl OutOfBounds)"
| "incASize _ = Inl BadTag"

fun incOSize :: "jvalue \<Rightarrow> nat \<Rightarrow> error + jvalue" where
  "incOSize (JObject ms c) key = (if c > length ms then Inr (JObject (ms @ [(key, JNul)]) c) else Inl OutOfBounds)"
| "incOSize _ key = Inl BadTag"

section \<open>Container helpers (DataHelper.h)\<close>

text \<open>
  \<open>arrayReserve\<close> and \<open>objectReserve\<close> move the live elements to a buffer of the new
  capacity when it is larger; \<open>arrayGrow\<close> and \<open>objectGrow\<close> ask for
  \<open>(uint32_t)std::ceil(capacity * 1.5f)\<close>, or 1 for an empty buffer.
\<close>

fun arrayReserve :: "jvalue \<Rightarrow> nat \<Rightarrow> error + jvalue" where
  "arrayReserve (JArray es c) newCapacity = Inr (if newCapacity \<le> c then JArray es c else JArray es newCapacity)"
| "arrayReserve _ newCapacity = Inl BadTag"

fun objectReserve :: "jvalue \<Rightarrow> nat \<Rightarrow> error + jvalue" where
  "objectReserve (JObject ms c) newCapacity = Inr (if newCapacity \<le> c then JObject ms c else JObject ms newCapacity)"
| "objectReserve _ newCapacity = Inl BadTag"

definition grown_capacity :: "nat \<Rightarrow> error + nat" where
  "grown_capacity capacity =
     (if capacity > 0
      then (if ceil_times_1_5 capacity < 2 ^ 32 then Inr (ceil_times_1_5 capacity) else Inl Overflow)
      else Inr 1)"

definition arrayGrow :: "jvalue \<Rightarrow> error + jvalue" where
  "arrayGrow v =
     (case arrayCapacity v of
        Inl e \<Rightarrow> Inl e
      | Inr capacity \<Rightarrow>
          (case grown_capacity capacity of
             Inl e \<Rightarrow> Inl e
           | Inr newCapacity \<Rightarrow> arrayReserve v newCapacity))"

definition objectGrow :: "jvalue \<Rightarrow> error + jvalue" where
  "objectGrow v =
     (case objectCapacity v of
        Inl e \<Rightarrow> Inl e
      | Inr capacity \<Rightarrow>
          (case grown_capacity capacity of
             Inl e \<Rightarrow> Inl e
           | Inr newCapacity \<Rightarrow> objectReserve v newCapacity))"

section \<open>The editor: Document::RefValue (Document.h)\<close>

text \<open>
  A \<open>RefValue\<close> is a reference to a cell of a document. An operation on it takes the
  document's string pool and the referenced cell, and returns them as it leaves them.
  \<open>RefValue::deallocate()\<close> returns the buffers owned by the cell to the object
  allocator and leaves the cell to be overwritten.
\<close>

text \<open>The checked accessors and their const variants.\<close>

definition arrayValueAt :: "jvalue \<Rightarrow> nat \<Rightarrow> error + jvalue" where
  "arrayValueAt v index =
     (case arraySize v of Inl e \<Rightarrow> Inl e
      | Inr sz \<Rightarrow> if index \<ge> sz then Inl OutOfRange else aValue v index)"

definition barrayValueAt :: "jvalue \<Rightarrow> nat \<Rightarrow> error + bool" where
  "barrayValueAt v index =
     (case barraySize v of Inl e \<Rightarrow> Inl e
      | Inr sz \<Rightarrow> if index \<ge> sz then Inl OutOfRange else arrayBool v index)"

definition iarrayValueAt :: "jvalue \<Rightarrow> nat \<Rightarrow> error + int64" where
  "iarrayValueAt v index =
     (case iarraySize v of Inl e \<Rightarrow> Inl e
      | Inr sz \<Rightarrow> if index \<ge> sz then Inl OutOfRange else arrayInt64 v index)"

definition darrayValueAt :: "jvalue \<Rightarrow> nat \<Rightarrow> error + double" where
  "darrayValueAt v index =
     (case darraySize v of Inl e \<Rightarrow> Inl e
      | Inr sz \<Rightarrow> if index \<ge> sz then Inl OutOfRange else arrayDouble v index)"

definition objectMemberAt :: "jvalue \<Rightarrow> nat \<Rightarrow> error + (nat \<times> jvalue)" where
  "objectMemberAt v index =
     (case objectSize v of Inl e \<Rightarrow> Inl e
      | Inr sz \<Rightarrow> if index \<ge> sz then Inl OutOfRange else jmember v index)"

definition arrayCValueAt :: "jvalue \<Rightarrow> nat \<Rightarrow> error + jvalue" where
  "arrayCValueAt v index =
     (case arraySize v of Inl e \<Rightarrow> Inl e
      | Inr sz \<Rightarrow> if index \<ge> sz then Inl OutOfRange else aValue v index)"

definition barrayCValueAt :: "jvalue \<Rightarrow> nat \<Rightarrow> error + bool" where
  "barrayCValueAt v index =
     (case barraySize v of Inl e \<Rightarrow> Inl e
      | Inr sz \<Rightarrow> if index \<ge> sz then Inl OutOfRange else arrayBool v index)"

definition iarrayCValueAt :: "jvalue \<Rightarrow> nat \<Rightarrow> error + int64" where
  "iarrayCValueAt v index =
     (case iarraySize v of Inl e \<Rightarrow> Inl e
      | Inr sz \<Rightarrow> if index \<ge> sz then Inl OutOfRange else arrayInt64 v index)"

definition darrayCValueAt :: "jvalue \<Rightarrow> nat \<Rightarrow> error + double" where
  "darrayCValueAt v index =
     (case darraySize v of Inl e \<Rightarrow> Inl e
      | Inr sz \<Rightarrow> if index \<ge> sz then Inl OutOfRange else arrayDouble v index)"

definition objectCMemberAt :: "jvalue \<Rightarrow> nat \<Rightarrow> error + (nat \<times> jvalue)" where
  "objectCMemberAt v index =
     (case objectSize v of Inl e \<Rightarrow> Inl e
      | Inr sz \<Rightarrow> if index \<ge> sz then Inl OutOfRange else jmember v index)"

text \<open>
  The block "check if short-string" of \<open>operator=\<close>, \<open>arrayPushBack\<close> and
  \<open>objectPushBack\<close>: \<open>minLen\<close> decides between \<open>set(s, minLen)\<close> and
  \<open>provide\<close> followed by \<open>set(js, js->len())\<close>. \<open>own\<close> tells the \<open>char*\<close>
  overload (the pool copies the bytes) from the \<open>const char*\<close> one; \<open>n\<close> is the
  length argument passed on to \<open>provide\<close>.
\<close>

definition store_string ::
  "(string \<Rightarrow> 32 word) \<Rightarrow> string_pool \<Rightarrow> string \<Rightarrow> bool \<Rightarrow> nat \<Rightarrow> int \<Rightarrow> error + (string_pool \<times> jvalue)" where
  "store_string h p s own minLen n =
     (if minLen < ShortString_MaxSize
      then (case string_bytes s (int minLen) of
              Inl e \<Rightarrow> Inl e
            | Inr bytes \<Rightarrow> Inr (p, JShortString bytes))
      else (case provide h p s own False n of
              Inl e \<Rightarrow> Inl e
            | Inr ((js, found), p') \<Rightarrow> Inr (p', JLongString (addr js) (len js))))"

text \<open>\<open>RefValue::operator=(const char*)\<close> and \<open>operator=(char*)\<close>.\<close>

definition assign_string ::
  "(string \<Rightarrow> 32 word) \<Rightarrow> string_pool \<times> jvalue \<Rightarrow> string \<Rightarrow> bool \<Rightarrow> error + (string_pool \<times> jvalue)" where
  "assign_string h pv s own = store_string h (fst pv) s own (minStringLength s) (- 1)"

text \<open>
  \<open>arrayIncSize\<close>: grows a full array and adds one cell, which the caller overwrites
  at once (the cell is uninitialised in the release build and Null in the debug build).
  Returns the array and \<open>last\<close>.
\<close>

definition arrayIncSize :: "jvalue \<Rightarrow> error + (jvalue \<times> nat)" where
  "arrayIncSize v =
     (case arraySize v of
        Inl e \<Rightarrow> Inl e
      | Inr lastIdx \<Rightarrow>
          (case arrayCapacity v of
             Inl e \<Rightarrow> Inl e
           | Inr capacity \<Rightarrow>
               (case (if lastIdx = capacity then arrayGrow v else Inr v) of
                  Inl e \<Rightarrow> Inl e
                | Inr v' \<Rightarrow>
                    (case incASize v' of Inl e \<Rightarrow> Inl e | Inr v'' \<Rightarrow> Inr (v'', lastIdx)))))"

fun set_element :: "jvalue \<Rightarrow> nat \<Rightarrow> jvalue \<Rightarrow> error + jvalue" where
  "set_element (JArray es c) i x = (if i < length es then Inr (JArray (es[i := x]) c) else Inl OutOfBounds)"
| "set_element _ i x = Inl BadTag"

fun set_member_value :: "jvalue \<Rightarrow> nat \<Rightarrow> jvalue \<Rightarrow> error + jvalue" where
  "set_member_value (JObject ms c) i x =
     (if i < length ms then Inr (JObject (ms[i := (fst (ms ! i), x)]) c) else Inl OutOfBounds)"
| "set_member_value _ i x = Inl BadTag"

text \<open>\<open>arrayPushBack(const char* s, int32_t length)\<close> and its \<open>char*\<close> overload.\<close>

definition arrayPushBack_string ::
  "(string \<Rightarrow> 32 word) \<Rightarrow> string_pool \<times> jvalue \<Rightarrow> string \<Rightarrow> bool \<Rightarrow> int \<Rightarrow> error + (string_pool \<times> jvalue)" where
  "arrayPushBack_string h pv s own n =
     (case arrayIncSize (snd pv) of
        Inl e \<Rightarrow> Inl e
      | Inr (v', lastIdx) \<Rightarrow>
          (let minLen = (if n \<ge> 0 then nat n else minStringLength s) in
           case store_string h (fst pv) s own minLen n of
             Inl e \<Rightarrow> Inl e
           | Inr (p', cell) \<Rightarrow>
               (case set_element v' lastIdx cell of Inl e \<Rightarrow> Inl e | Inr v'' \<Rightarrow> Inr (p', v''))))"

text \<open>
  \<open>objectIncSize(key, len)\<close>: grows a full object, provides the key (as a key) and adds
  the member with a Null value. Returns the pool, the object and the index of the member.
\<close>

definition objectIncSize ::
  "(string \<Rightarrow> 32 word) \<Rightarrow> string_pool \<times> jvalue \<Rightarrow> string \<Rightarrow> bool \<Rightarrow> int \<Rightarrow> error + (string_pool \<times> jvalue \<times> nat)" where
  "objectIncSize h pv key own n =
     (case objectSize (snd pv) of
        Inl e \<Rightarrow> Inl e
      | Inr sz \<Rightarrow>
          (case objectCapacity (snd pv) of
             Inl e \<Rightarrow> Inl e
           | Inr capacity \<Rightarrow>
               (case (if sz = capacity then objectGrow (snd pv) else Inr (snd pv)) of
                  Inl e \<Rightarrow> Inl e
                | Inr v' \<Rightarrow>
                    (case provide h (fst pv) key own True n of
                       Inl e \<Rightarrow> Inl e
                     | Inr ((js, found), p') \<Rightarrow>
                         (case incOSize v' (addr js) of
                            Inl e \<Rightarrow> Inl e
                          | Inr v'' \<Rightarrow> Inr (p', v'', sz))))))"

text \<open>
  \<open>objectPushBack(key, val, keyLength, valLength)\<close> for a string value, in its four
  overloads (\<open>ownKey\<close>, \<open>ownVal\<close>).
\<close>

definition objectPushBack_string ::
  "(string \<Rightarrow> 32 word) \<Rightarrow> string_pool \<times> jvalue \<Rightarrow> string \<Rightarrow> bool \<Rightarrow> string \<Rightarrow> bool \<Rightarrow> int \<Rightarrow> int
     \<Rightarrow> error + (string_pool \<times> jvalue)" where
  "objectPushBack_string h pv key ownKey val ownVal keyLength valLength =
     (case objectIncSize h pv key ownKey keyLength of
        Inl e \<Rightarrow> Inl e
      | Inr (p1, v1, lastIdx) \<Rightarrow>
          (let minLen = (if valLength \<ge> 0 then nat valLength else minStringLength val) in
           case store_string h p1 val ownVal minLen valLength of
             Inl e \<Rightarrow> Inl e
           | Inr (p2, cell) \<Rightarrow>
               (case set_member_value v1 lastIdx cell of Inl e \<Rightarrow> Inl e | Inr v2 \<Rightarrow> Inr (p2, v2))))"

text \<open>
  \<open>Document::getValue\<close>: the index of the first member whose key is the object
  \<open>jKey\<close>, compared by address; \<open>None\<close> is \<open>nullptr\<close>.
\<close>

fun getValue_loop :: "(nat \<times> jvalue) list \<Rightarrow> nat \<Rightarrow> nat \<Rightarrow> nat option" where
  "getValue_loop [] i jKey = None"
| "getValue_loop (m # ms) i jKey = (if fst m = jKey then Some i else getValue_loop ms (Suc i) jKey)"

fun getValue :: "jvalue \<Rightarrow> nat \<Rightarrow> error + nat option" where
  "getValue (JObject ms c) jKey = Inr (getValue_loop ms 0 jKey)"
| "getValue _ jKey = Inl BadTag"

text \<open>
  \<open>RefValue::operator[](const char* key)\<close> and \<open>operator[](char* key)\<close>. Returns the
  pool, the cell and the index of the member whose value slot the result refers to.
\<close>

definition subscript_key ::
  "(string \<Rightarrow> 32 word) \<Rightarrow> string_pool \<times> jvalue \<Rightarrow> string \<Rightarrow> bool \<Rightarrow> error + (string_pool \<times> jvalue \<times> nat)" where
  "subscript_key h pv key own =
     (let v = (if isNul (snd pv) then JObject [] 0 else snd pv) in
      case objectSize v of
        Inl e \<Rightarrow> Inl e
      | Inr sz \<Rightarrow>
          (case provide h (fst pv) key own True (- 1) of
             Inl e \<Rightarrow> Inl e
           | Inr ((jKey, found), p') \<Rightarrow>
               (case (if found then getValue v (addr jKey) else Inr None) of
                  Inl e \<Rightarrow> Inl e
                | Inr (Some i) \<Rightarrow> Inr (p', v, i)
                | Inr None \<Rightarrow>
                    (case objectCapacity v of
                       Inl e \<Rightarrow> Inl e
                     | Inr capacity \<Rightarrow>
                         (case (if sz = capacity then objectGrow v else Inr v) of
                            Inl e \<Rightarrow> Inl e
                          | Inr v' \<Rightarrow>
                              (case incOSize v' (addr jKey) of
                                 Inl e \<Rightarrow> Inl e
                               | Inr v'' \<Rightarrow> Inr (p', v'', sz)))))))"

text \<open>
  \<open>RefValue::operator[](int index)\<close>; \<open>(uint32_t)index\<close> is \<open>index mod 2^32\<close>.
  An index beyond the size refers to no element.
\<close>

definition subscript_index :: "jvalue \<Rightarrow> int \<Rightarrow> error + (jvalue \<times> nat)" where
  "subscript_index v0 index =
     (let v = (if isNul v0 then JArray [] 0 else v0);
          idx = nat (index mod 2 ^ 32) in
      case arraySize v of
        Inl e \<Rightarrow> Inl e
      | Inr sz \<Rightarrow>
          if idx = sz then
            (case arrayCapacity v of
               Inl e \<Rightarrow> Inl e
             | Inr capacity \<Rightarrow>
                 (case (if sz = capacity then arrayGrow v else Inr v) of
                    Inl e \<Rightarrow> Inl e
                  | Inr v' \<Rightarrow>
                      (case incASize v' of Inl e \<Rightarrow> Inl e | Inr v'' \<Rightarrow> Inr (v'', idx))))
          else if idx < sz then Inr (v, idx)
          else Inl OutOfBounds)"

text \<open>The key string of a member: the bytes of the pooled string at the member's key address.\<close>

definition member_key :: "string_pool \<Rightarrow> nat \<times> jvalue \<Rightarrow> string option" where
  "member_key p m = map_option c_str (find (\<lambda>js. addr js = fst m) (pool_strings p))"

section \<open>Cells as bytes (BaseData.h)\<close>

text \<open>
  The parsing handler builds containers on a byte stack and moves them to the object
  allocator with \<open>memcpy\<close>, so its cells are modelled as the bytes of the 64-bit
  little-endian layout: the tag at offset 0; for a number the scalar at offset 8; for a
  container \<open>capa\<close> (\<open>uint16_t\<close>) at offset 2, \<open>size\<close> (\<open>uint32_t\<close>) at offset
  4 and the buffer pointer at offset 8; for a long string \<open>len\<close> at offset 4 and the
  pointer at offset 8; for a short string the characters at offsets 1 to 15, the last one
  holding \<open>MaxLen - len\<close>. A member is the key pointer followed by the value cell.
\<close>

fun JType_code :: "JType \<Rightarrow> byte" where
  "JType_code OBJECT = 0"
| "JType_code ARRAY = 1"
| "JType_code BARRAY = 2"
| "JType_code IARRAY = 3"
| "JType_code DARRAY = 4"
| "JType_code SSTRING = 5"
| "JType_code LSTRING = 6"
| "JType_code INT64 = 7"
| "JType_code UINT64 = 8"
| "JType_code DOUBLE = 9"
| "JType_code TRUE = 10"
| "JType_code FALSE = 11"
| "JType_code NUL = 12"

definition sizeof_ConstValue :: nat where
  "sizeof_ConstValue = 16"

definition sizeof_ConstMember :: nat where
  "sizeof_ConstMember = 24"

definition LFJ_MAX_UINT16 :: "32 word" where
  "LFJ_MAX_UINT16 = 65535"


text \<open>Little-endian stores and loads of the integer fields.\<close>

definition store_u16 :: "memory \<Rightarrow> nat \<Rightarrow> 16 word \<Rightarrow> memory" where
  "store_u16 m a v = (\<lambda>i. if a \<le> i \<and> i < a + 2 then of_nat (unat v div 256 ^ (i - a) mod 256) else m i)"

definition store_u32 :: "memory \<Rightarrow> nat \<Rightarrow> 32 word \<Rightarrow> memory" where
  "store_u32 m a v = (\<lambda>i. if a \<le> i \<and> i < a + 4 then of_nat (unat v div 256 ^ (i - a) mod 256) else m i)"

definition store_u64 :: "memory \<Rightarrow> nat \<Rightarrow> 64 word \<Rightarrow> memory" where
  "store_u64 m a v = (\<lambda>i. if a \<le> i \<and> i < a + 8 then of_nat (unat v div 256 ^ (i - a) mod 256) else m i)"

definition load_u16 :: "memory \<Rightarrow> nat \<Rightarrow> 16 word" where
  "load_u16 m a = of_nat (unat (m a) + 256 * unat (m (a + 1)))"

definition load_u32 :: "memory \<Rightarrow> nat \<Rightarrow> 32 word" where
  "load_u32 m a =
     of_nat (unat (m a) + 256 * (unat (m (a + 1)) + 256 * (unat (m (a + 2)) + 256 * unat (m (a + 3)))))"

definition load_u64 :: "memory \<Rightarrow> nat \<Rightarrow> 64 word" where
  "load_u64 m a =
     of_nat (unat (m a) + 256 * (unat (m (a + 1)) + 256 * (unat (m (a + 2)) + 256 * (unat (m (a + 3))
       + 256 * (unat (m (a + 4)) + 256 * (unat (m (a + 5)) + 256 * (unat (m (a + 6))
       + 256 * unat (m (a + 7)))))))))"

text \<open>\<open>std::memcpy(dst, src, n)\<close> from the memory \<open>ms\<close> into the memory \<open>md\<close>.\<close>

definition memcpy :: "memory \<Rightarrow> nat \<Rightarrow> memory \<Rightarrow> nat \<Rightarrow> nat \<Rightarrow> memory" where
  "memcpy md dst ms src n = (\<lambda>i. if dst \<le> i \<and> i < dst + n then ms (src + (i - dst)) else md i)"

text \<open>Storing the characters of a string.\<close>

definition store_chars :: "memory \<Rightarrow> nat \<Rightarrow> string \<Rightarrow> memory" where
  "store_chars m a cs = (\<lambda>i. if a \<le> i \<and> i < a + length cs then of_nat (of_char (cs ! (i - a))) else m i)"

text \<open>
  The constructors of \<open>JValue\<close>, applied in place at the address \<open>dst\<close>. Each writes the
  fields that its member initialisers name and leaves the other bytes of the cell as
  they are.
\<close>

definition JValue_nul :: "memory \<Rightarrow> nat \<Rightarrow> memory" where
  "JValue_nul m dst = m(dst := JType_code NUL)"

definition JValue_bool :: "memory \<Rightarrow> nat \<Rightarrow> bool \<Rightarrow> memory" where
  "JValue_bool m dst b = m(dst := JType_code (if b then TRUE else FALSE))"

definition JValue_int64 :: "memory \<Rightarrow> nat \<Rightarrow> int64 \<Rightarrow> memory" where
  "JValue_int64 m dst i64 = store_u64 (m(dst := JType_code INT64)) (dst + 8) i64"


definition JValue_double :: "memory \<Rightarrow> nat \<Rightarrow> double \<Rightarrow> memory" where
  "JValue_double m dst d = store_u64 (m(dst := JType_code DOUBLE)) (dst + 8) d"

definition JValue_type :: "memory \<Rightarrow> nat \<Rightarrow> JType \<Rightarrow> memory" where
  "JValue_type m dst t = store_u32 (store_u16 (m(dst := JType_code t)) (dst + 2) 0) (dst + 4) 0"

text \<open>
  \<open>JValue(const char* str, uint32_t len)\<close>, the \<open>ShortString\<close> constructor: it copies
  \<open>len\<close> characters, writes the terminator behind them and the length byte at
  \<open>str[LenPos]\<close>. A length above \<open>MaxLen\<close> makes it write past the cell.
\<close>

definition JValue_sstring :: "memory \<Rightarrow> nat \<Rightarrow> string \<Rightarrow> 32 word \<Rightarrow> error + memory" where
  "JValue_sstring m dst str slen =
     (if \<not> isShort (unat slen) then Inl OutOfBounds
      else (case string_bytes str (uint slen) of
              Inl e \<Rightarrow> Inl e
            | Inr bytes \<Rightarrow>
                Inr ((store_chars (m(dst := JType_code SSTRING)) (dst + 1) bytes)
                       (dst + 1 + unat slen := 0,
                        dst + 1 + ShortString_MaxLen := of_nat (ShortString_MaxLen - unat slen)))))"

text \<open>
  \<open>JValue(const JString* js, uint32_t len)\<close>, the \<open>LongString\<close> constructor. The
  pointer field is \<open>js->c_str()\<close>, which the address of the string object stands for.
\<close>

definition JValue_lstring :: "memory \<Rightarrow> nat \<Rightarrow> jstring \<Rightarrow> 32 word \<Rightarrow> memory" where
  "JValue_lstring m dst js slen =
     store_u64 (store_u32 (m(dst := JType_code LSTRING)) (dst + 4) slen) (dst + 8) (of_nat (addr js))"

text \<open>\<open>JMember(const JString* key)\<close>: the key pointer and a default-constructed value.\<close>

definition JMember_key :: "memory \<Rightarrow> nat \<Rightarrow> jstring \<Rightarrow> memory" where
  "JMember_key m dst js = JValue_nul (store_u64 m dst (of_nat (addr js))) (dst + 8)"

text \<open>The \<open>force\<close> modifiers.\<close>

definition force_bool :: "memory \<Rightarrow> nat \<Rightarrow> bool \<Rightarrow> memory" where
  "force_bool m dst b = m(dst := JType_code (if b then TRUE else FALSE))"

definition force_int64 :: "memory \<Rightarrow> nat \<Rightarrow> int64 \<Rightarrow> memory" where
  "force_int64 m dst i64 = store_u64 (m(dst := JType_code INT64)) (dst + 8) i64"

definition force_double :: "memory \<Rightarrow> nat \<Rightarrow> double \<Rightarrow> memory" where
  "force_double m dst d = store_u64 (m(dst := JType_code DOUBLE)) (dst + 8) d"

definition force_type :: "memory \<Rightarrow> nat \<Rightarrow> JType \<Rightarrow> memory" where
  "force_type m dst t = m(dst := JType_code t)"

text \<open>\<open>set(JType)\<close>, as \<open>toArray\<close> and \<open>toObject\<close> use it.\<close>

definition set_container :: "memory \<Rightarrow> nat \<Rightarrow> JType \<Rightarrow> memory" where
  "set_container m dst t = store_u16 (store_u32 (m(dst := JType_code t)) (dst + 4) 0) (dst + 2) 0"

text \<open>
  The raw modifiers \<open>setRawArray\<close>, \<open>setRawBArray\<close>, \<open>setRawIArray\<close>,
  \<open>setRawDArray\<close> and \<open>setRawObject\<close>: pointer, capacity and size; the typed ones
  force the tag first.
\<close>

definition setRaw :: "memory \<Rightarrow> nat \<Rightarrow> nat \<Rightarrow> 32 word \<Rightarrow> memory" where
  "setRaw m dst ptr sz =
     (let m1 = store_u64 m (dst + 8) (of_nat ptr);
          m2 = store_u16 m1 (dst + 2) (if sz < LFJ_MAX_UINT16 then ucast sz else ucast LFJ_MAX_UINT16)
      in store_u32 m2 (dst + 4) sz)"

definition setRawArray :: "memory \<Rightarrow> nat \<Rightarrow> nat \<Rightarrow> 32 word \<Rightarrow> memory" where
  "setRawArray m dst ptr sz = setRaw m dst ptr sz"

definition setRawBArray :: "memory \<Rightarrow> nat \<Rightarrow> nat \<Rightarrow> 32 word \<Rightarrow> memory" where
  "setRawBArray m dst ptr sz = setRaw (force_type m dst BARRAY) dst ptr sz"

definition setRawIArray :: "memory \<Rightarrow> nat \<Rightarrow> nat \<Rightarrow> 32 word \<Rightarrow> memory" where
  "setRawIArray m dst ptr sz = setRaw (force_type m dst IARRAY) dst ptr sz"

definition setRawDArray :: "memory \<Rightarrow> nat \<Rightarrow> nat \<Rightarrow> 32 word \<Rightarrow> memory" where
  "setRawDArray m dst ptr sz = setRaw (force_type m dst DARRAY) dst ptr sz"

definition setRawObject :: "memory \<Rightarrow> nat \<Rightarrow> nat \<Rightarrow> 32 word \<Rightarrow> memory" where
  "setRawObject m dst ptr sz = setRaw m dst ptr sz"

text \<open>The getters that read a cell back: tag, size, capacity field and buffer pointer.\<close>

definition cell_type :: "memory \<Rightarrow> nat \<Rightarrow> JType option" where
  "cell_type m a = find (\<lambda>t. JType_code t = m a)
     [OBJECT, ARRAY, BARRAY, IARRAY, DARRAY, SSTRING, LSTRING, INT64, UINT64, DOUBLE, TRUE, FALSE, NUL]"

definition cell_size :: "memory \<Rightarrow> nat \<Rightarrow> 32 word" where
  "cell_size m a = load_u32 m (a + 4)"

definition cell_capa :: "memory \<Rightarrow> nat \<Rightarrow> 16 word" where
  "cell_capa m a = load_u16 m (a + 2)"

definition cell_ptr :: "memory \<Rightarrow> nat \<Rightarrow> nat" where
  "cell_ptr m a = unat (load_u64 m (a + 8))"


text \<open>
  \<open>(double)i64\<close>: the conversion of a signed 64-bit integer to binary64, rounding to
  nearest with ties to even, as a bit pattern.
\<close>

definition double_of_int64 :: "int64 \<Rightarrow> double" where
  "double_of_int64 i =
     (let v = sint i; mag = nat (abs v) in
      if mag = 0 then 0
      else (let e = bit_length mag - 1;
                q = (if e \<le> 52 then mag * 2 ^ (52 - e)
                     else (let sh = e - 52; t = mag div 2 ^ sh; r = mag mod 2 ^ sh; half = 2 ^ (sh - 1)
                           in if r > half \<or> (r = half \<and> odd t) then t + 1 else t))
            in of_nat ((if v < 0 then 2 ^ 63 else 0) + (e + 1022) * 2 ^ 52 + q)))"

section \<open>Document and its parsing handler (Document.h)\<close>

text \<open>
  \<open>LFStack\<close>: \<open>size\<close>, \<open>capa\<close> and the bytes \<open>data[0], data[1], ...\<close> of the
  buffer. A position in the buffer is an offset from \<open>data\<close>; offsets are integers
  because \<open>end() - n\<close> and \<open>lastValue()\<close> can point in front of the buffer. The
  bytes of a buffer that were never written are indeterminate: \<open>reserve\<close> keeps the
  \<open>size\<close> bytes in use, and the model keeps whatever lies behind them too.
\<close>

record lfstack =
  lf_size :: nat          \<comment> \<open>\<open>size_t\<close>, modulo \<open>2^64\<close>\<close>
  lf_capa :: nat
  lf_data :: memory

definition LFStack :: "memory \<Rightarrow> lfstack" where
  "LFStack d = \<lparr>lf_size = 0, lf_capa = 1024, lf_data = d\<rparr>"

definition stack_end :: "lfstack \<Rightarrow> int" where
  "stack_end st = int (lf_size st)"

definition lastValue :: "lfstack \<Rightarrow> int" where
  "lastValue st = int (lf_size st) - int sizeof_ConstValue"

definition increment :: "lfstack \<Rightarrow> nat \<Rightarrow> lfstack" where
  "increment st inc = st\<lparr>lf_size := (lf_size st + inc) mod 2 ^ 64\<rparr>"

definition decrement :: "lfstack \<Rightarrow> nat \<Rightarrow> lfstack" where
  "decrement st dec = st\<lparr>lf_size := (lf_size st + 2 ^ 64 - dec mod 2 ^ 64) mod 2 ^ 64\<rparr>"

text \<open>\<open>reserve\<close>; the growth \<open>(size_t)std::ceil(capa * 2.f)\<close> rounds \<open>capa\<close> to a float.\<close>

definition reserve :: "lfstack \<Rightarrow> nat \<Rightarrow> lfstack" where
  "reserve st newCapacity =
     (if lf_capa st \<ge> newCapacity then st
      else (let grownCapa = (if lf_capa st > 0 then 2 * round_sig24 (lf_capa st) else 1)
            in st\<lparr>lf_capa := (if newCapacity < grownCapa then grownCapa else newCapacity)\<rparr>))"

text \<open>Whether the \<open>n\<close> bytes at an offset lie inside the buffer.\<close>

definition in_buffer :: "lfstack \<Rightarrow> int \<Rightarrow> nat \<Rightarrow> bool" where
  "in_buffer st off n \<longleftrightarrow> 0 \<le> off \<and> off + int n \<le> int (lf_capa st)"

text \<open>
  A document: the root cell (16 bytes of their own, the cell at address 0 of \<open>mRoot\<close>),
  the string pool and the object allocator, whose memory holds the buffers of the
  containers. \<open>ObjectChunkSize\<close> is the default \<open>LFJ_DOCUMENT_DFLT_CHUNKSIZE\<close>.
\<close>

record document =
  mRoot :: memory
  mSPA :: string_pool
  mOPA :: pool_allocator

definition ObjectChunkSize :: "16 word" where
  "ObjectChunkSize = 32768"

definition Document :: "(nat \<Rightarrow> nat) \<Rightarrow> (nat \<Rightarrow> nat) \<Rightarrow> memory \<Rightarrow> document" where
  "Document a b r = \<lparr>mRoot = JValue_nul r 0, mSPA = StringPool a, mOPA = PoolAllocator b\<rparr>"

text \<open>
  \<open>root().toArray()\<close> and \<open>root().toObject()\<close>: \<open>deallocate()\<close>, then
  \<open>set(type)\<close>. Releasing has nothing to do unless the root is a container that holds
  a buffer; that case is left out.
\<close>

definition holds_buffer :: "memory \<Rightarrow> bool" where
  "holds_buffer r \<longleftrightarrow>
     r 0 \<in> {JType_code OBJECT, JType_code ARRAY, JType_code BARRAY, JType_code IARRAY, JType_code DARRAY}
     \<and> (cell_capa r 0 \<noteq> 0 \<or> cell_size r 0 \<noteq> 0)"

definition root_to :: "JType \<Rightarrow> document \<Rightarrow> error + document" where
  "root_to t doc =
     (if holds_buffer (mRoot doc) then Inl NotModelled
      else Inr (doc\<lparr>mRoot := set_container (mRoot doc) 0 t\<rparr>))"

text \<open>
  \<open>memPush\<close> and its variants for the Big descriptors, from the stack buffer \<open>ms\<close> at
  the offset \<open>src\<close>. A Big descriptor is the \<open>uint32_t capa\<close> followed by the data at
  the offset \<open>hdr\<close> (the alignment of the element); \<open>unit\<close> is the size of an element and
  \<open>sizeof_big\<close> the size of the descriptor with one element.
\<close>

definition memPush :: "pool_allocator \<Rightarrow> memory \<Rightarrow> nat \<Rightarrow> 32 word \<Rightarrow> error + (nat \<times> pool_allocator)" where
  "memPush pa ms src sz =
     (case allocate ObjectChunkSize pa sz of
        None \<Rightarrow> Inl Diverges
      | Some (dst, pa') \<Rightarrow> Inr (dst, pa'\<lparr>mem := memcpy (mem pa') dst ms src (unat sz)\<rparr>))"

definition memPushBig ::
  "nat \<Rightarrow> nat \<Rightarrow> nat \<Rightarrow> pool_allocator \<Rightarrow> memory \<Rightarrow> nat \<Rightarrow> 32 word \<Rightarrow> error + (nat \<times> pool_allocator)" where
  "memPushBig sizeof_big hdr unit pa ms src cnt =
     (let realSize = of_nat sizeof_big + (cnt - 1) * of_nat unit in
      case allocate ObjectChunkSize pa realSize of
        None \<Rightarrow> Inl Diverges
      | Some (dst, pa') \<Rightarrow>
          Inr (dst, pa'\<lparr>mem := memcpy (store_u32 (mem pa') dst cnt) (dst + hdr) ms src (unat cnt * unit)\<rparr>))"

definition memPushBigArray :: "pool_allocator \<Rightarrow> memory \<Rightarrow> nat \<Rightarrow> 32 word \<Rightarrow> error + (nat \<times> pool_allocator)" where
  "memPushBigArray = memPushBig 24 8 16"

definition memPushBigBArray :: "pool_allocator \<Rightarrow> memory \<Rightarrow> nat \<Rightarrow> 32 word \<Rightarrow> error + (nat \<times> pool_allocator)" where
  "memPushBigBArray = memPushBig 8 4 1"

definition memPushBigIArray :: "pool_allocator \<Rightarrow> memory \<Rightarrow> nat \<Rightarrow> 32 word \<Rightarrow> error + (nat \<times> pool_allocator)" where
  "memPushBigIArray = memPushBig 16 8 8"

definition memPushBigDArray :: "pool_allocator \<Rightarrow> memory \<Rightarrow> nat \<Rightarrow> 32 word \<Rightarrow> error + (nat \<times> pool_allocator)" where
  "memPushBigDArray = memPushBig 16 8 8"

definition memPushBigObject :: "pool_allocator \<Rightarrow> memory \<Rightarrow> nat \<Rightarrow> 32 word \<Rightarrow> error + (nat \<times> pool_allocator)" where
  "memPushBigObject = memPushBig 32 8 24"

text \<open>The handler.\<close>

record handler =
  mDoc :: document
  mStack :: lfstack
  mMemberVal :: bool
  mRootInit :: bool
  mIntToDouble :: bool
  mArraySize :: "32 word"
  mArrayType :: JType

text \<open>
  \<open>Handler(doc, allowIntToDouble)\<close>; \<open>d\<close> is the indeterminate content of the stack
  buffer that the constructor allocates.
\<close>

definition Handler :: "document \<Rightarrow> bool \<Rightarrow> memory \<Rightarrow> handler" where
  "Handler doc allowIntToDouble d =
     \<lparr>mDoc = doc, mStack = LFStack d, mMemberVal = False, mRootInit = False,
      mIntToDouble = allowIntToDouble, mArraySize = 0, mArrayType = NUL\<rparr>"

text \<open>
  The in-place widening loops of \<open>convertedFor\<close>. The specialized elements start at the
  offset \<open>start\<close>; the generic cells are written over them from the same offset, last
  element first.
\<close>

definition ints_to_doubles :: "memory \<Rightarrow> nat \<Rightarrow> nat \<Rightarrow> memory" where
  "ints_to_doubles m start n =
     fold (\<lambda>i m'. store_u64 m' (start + 8 * i) (double_of_int64 (load_u64 m' (start + 8 * i)))) [0 ..< n] m"

definition widen_bools :: "memory \<Rightarrow> nat \<Rightarrow> nat \<Rightarrow> memory" where
  "widen_bools m start n =
     fold (\<lambda>i m'. force_bool m' (start + 16 * i) (m' (start + i) \<noteq> 0)) (rev [0 ..< n]) m"

definition widen_ints :: "memory \<Rightarrow> nat \<Rightarrow> nat \<Rightarrow> memory" where
  "widen_ints m start n =
     fold (\<lambda>i m'. force_int64 m' (start + 16 * i) (load_u64 m' (start + 8 * i))) (rev [0 ..< n]) m"

definition widen_doubles :: "memory \<Rightarrow> nat \<Rightarrow> nat \<Rightarrow> memory" where
  "widen_doubles m start n =
     fold (\<lambda>i m'. force_double m' (start + 16 * i) (load_u64 m' (start + 8 * i))) (rev [0 ..< n]) m"

text \<open>
  The three cases of the \<open>switch\<close> of \<open>convertedFor\<close>: reserve \<open>addSize\<close> bytes, then
  widen the \<open>mArraySize\<close> elements of \<open>unit\<close> bytes that end at \<open>mStack.end()\<close>. The
  stack size is not changed here.
\<close>

definition widen ::
  "(memory \<Rightarrow> nat \<Rightarrow> nat \<Rightarrow> memory) \<Rightarrow> nat \<Rightarrow> handler \<Rightarrow> error + (bool \<times> handler)" where
  "widen loop unit hs =
     (let n = unat (mArraySize hs);
          addSize = n * (sizeof_ConstValue - unit) + sizeof_ConstValue;
          st = reserve (mStack hs) ((lf_size (mStack hs) + addSize) mod 2 ^ 64);
          start = stack_end st - int (n * unit)
      in if in_buffer st start (n * sizeof_ConstValue)
         then Inr (False, hs\<lparr>mStack := st\<lparr>lf_data := loop (lf_data st) (nat start) n\<rparr>, mArrayType := ARRAY\<rparr>)
         else Inl OutOfBounds)"

text \<open>\<open>convertedFor\<close>: returns whether the pending array is specialized.\<close>

definition convertedFor :: "JType \<Rightarrow> handler \<Rightarrow> error + (bool \<times> handler)" where
  "convertedFor t hs =
     (if mArrayType hs = t \<or> mArrayType hs = NUL
      then Inr (True, hs\<lparr>mArraySize := mArraySize hs + 1, mArrayType := t\<rparr>)
      else if mIntToDouble hs \<and> mArrayType hs = DARRAY \<and> t = IARRAY
      then Inr (True, hs\<lparr>mArraySize := mArraySize hs + 1\<rparr>)
      else if mIntToDouble hs \<and> mArrayType hs = IARRAY \<and> t = DARRAY
      then (let st = mStack hs; n = unat (mArraySize hs); start = stack_end st - int (n * 8)
            in if in_buffer st start (n * 8)
               then Inr (True, hs\<lparr>mStack := st\<lparr>lf_data := ints_to_doubles (lf_data st) (nat start) n\<rparr>,
                                    mArraySize := mArraySize hs + 1, mArrayType := DARRAY\<rparr>)
               else Inl OutOfBounds)
      else (case mArrayType hs of
              BARRAY \<Rightarrow> widen widen_bools 1 hs
            | IARRAY \<Rightarrow> widen widen_ints 8 hs
            | DARRAY \<Rightarrow> widen widen_doubles 8 hs
            | _ \<Rightarrow> Inr (False, hs\<lparr>mArrayType := ARRAY\<rparr>)))"

text \<open>
  The two ways in which an event stores a cell. As the value of the member that
  \<open>pushKey\<close> has just pushed: the constructor \<open>w\<close> runs at \<open>mStack.lastValue()\<close>. As
  an element: reserve \<open>memSize\<close> bytes, run \<open>w\<close> at \<open>mStack.end()\<close>, increment.
  The constructor may provide a string to the pool of the document.
\<close>

definition at_lastValue ::
  "handler \<Rightarrow> (document \<Rightarrow> memory \<Rightarrow> nat \<Rightarrow> error + (document \<times> memory)) \<Rightarrow> error + handler" where
  "at_lastValue hs w =
     (let st = mStack hs in
      if in_buffer st (lastValue st) sizeof_ConstValue
      then (case w (mDoc hs) (lf_data st) (nat (lastValue st)) of
              Inl e \<Rightarrow> Inl e
            | Inr (doc, m) \<Rightarrow> Inr (hs\<lparr>mDoc := doc, mStack := st\<lparr>lf_data := m\<rparr>, mMemberVal := False\<rparr>))
      else Inl OutOfBounds)"

definition at_end ::
  "handler \<Rightarrow> nat \<Rightarrow> (document \<Rightarrow> memory \<Rightarrow> nat \<Rightarrow> error + (document \<times> memory)) \<Rightarrow> error + handler" where
  "at_end hs memSize w =
     (let st = reserve (mStack hs) ((lf_size (mStack hs) + memSize) mod 2 ^ 64) in
      if in_buffer st (stack_end st) memSize
      then (case w (mDoc hs) (lf_data st) (nat (stack_end st)) of
              Inl e \<Rightarrow> Inl e
            | Inr (doc, m) \<Rightarrow> Inr (hs\<lparr>mDoc := doc, mStack := increment (st\<lparr>lf_data := m\<rparr>) memSize\<rparr>))
      else Inl OutOfBounds)"


definition inPlaceValue_bool :: "bool \<Rightarrow> document \<Rightarrow> memory \<Rightarrow> nat \<Rightarrow> error + (document \<times> memory)" where
  "inPlaceValue_bool b doc m dst = Inr (doc, JValue_bool m dst b)"

definition inPlaceValue_int64 :: "int64 \<Rightarrow> document \<Rightarrow> memory \<Rightarrow> nat \<Rightarrow> error + (document \<times> memory)" where
  "inPlaceValue_int64 i64 doc m dst = Inr (doc, JValue_int64 m dst i64)"


definition inPlaceValue_double :: "double \<Rightarrow> document \<Rightarrow> memory \<Rightarrow> nat \<Rightarrow> error + (document \<times> memory)" where
  "inPlaceValue_double d doc m dst = Inr (doc, JValue_double m dst d)"

definition inPlaceValue_type :: "JType \<Rightarrow> document \<Rightarrow> memory \<Rightarrow> nat \<Rightarrow> error + (document \<times> memory)" where
  "inPlaceValue_type t doc m dst = Inr (doc, JValue_type m dst t)"

text \<open>
  \<open>inPlaceValue(void* dst, const char* str, int32_t len)\<close> and its \<open>char*\<close> overload
  (\<open>own\<close>). The first constructs the short string with \<open>minLen\<close>, the second with
  \<open>len\<close>, which the constructor takes as \<open>uint32_t\<close>.
\<close>

definition inPlaceValue_string ::
  "(string \<Rightarrow> 32 word) \<Rightarrow> string \<Rightarrow> bool \<Rightarrow> int \<Rightarrow> document \<Rightarrow> memory \<Rightarrow> nat \<Rightarrow> error + (document \<times> memory)" where
  "inPlaceValue_string h str own n doc m dst =
     (let minLen = (if n \<ge> 0 then nat n else minStringLength str) in
      if minLen < ShortString_MaxSize
      then (case JValue_sstring m dst str (if own then of_int n else of_nat minLen) of
              Inl e \<Rightarrow> Inl e
            | Inr m' \<Rightarrow> Inr (doc, m'))
      else (case provide h (mSPA doc) str own False n of
              Inl e \<Rightarrow> Inl e
            | Inr ((js, found), p') \<Rightarrow> Inr (doc\<lparr>mSPA := p'\<rparr>, JValue_lstring m dst js (of_nat (len js)))))"

definition inPlaceMember ::
  "(string \<Rightarrow> 32 word) \<Rightarrow> string \<Rightarrow> bool \<Rightarrow> int \<Rightarrow> document \<Rightarrow> memory \<Rightarrow> nat \<Rightarrow> error + (document \<times> memory)" where
  "inPlaceMember h key own n doc m dst =
     (case provide h (mSPA doc) key own True n of
        Inl e \<Rightarrow> Inl e
      | Inr ((js, found), p') \<Rightarrow> Inr (doc\<lparr>mSPA := p'\<rparr>, JMember_key m dst js))"

text \<open>A step on a result: the next event runs on the state that the previous one returned.\<close>

definition and_then :: "error + 'a \<Rightarrow> ('a \<Rightarrow> error + 'b) \<Rightarrow> error + 'b" where
  "and_then r f = (case r of Inl e \<Rightarrow> Inl e | Inr x \<Rightarrow> f x)"

text \<open>The group events.\<close>

definition start_container :: "JType \<Rightarrow> handler \<Rightarrow> error + handler" where
  "start_container t hs =
     (if \<not> mRootInit hs
      then and_then (root_to t (mDoc hs)) (\<lambda>doc. Inr (hs\<lparr>mDoc := doc, mRootInit := True\<rparr>))
      else if mMemberVal hs then at_lastValue hs (inPlaceValue_type t)
      else and_then (convertedFor ARRAY hs) (\<lambda>(specialized, hs1).
             at_end hs1 sizeof_ConstValue (inPlaceValue_type t)))"


definition startArray :: "handler \<Rightarrow> error + handler" where
  "startArray hs =
     and_then (start_container ARRAY hs) (\<lambda>hs1. Inr (hs1\<lparr>mArraySize := 0, mArrayType := NUL\<rparr>))"

text \<open>
  The common part of \<open>endObject\<close> and of the cases of \<open>endArray\<close>: move the
  \<open>memSize\<close> bytes in front of \<open>mStack.end()\<close> to the object allocator, decrement,
  and set the buffer on \<open>val\<close>, which is the root when the stack is empty and the cell at
  \<open>mStack.lastValue()\<close> otherwise.
\<close>

definition move_to_alloc ::
  "handler \<Rightarrow> 32 word \<Rightarrow> 32 word
     \<Rightarrow> (pool_allocator \<Rightarrow> memory \<Rightarrow> nat \<Rightarrow> 32 word \<Rightarrow> error + (nat \<times> pool_allocator))
     \<Rightarrow> (memory \<Rightarrow> nat \<Rightarrow> nat \<Rightarrow> 32 word \<Rightarrow> memory) \<Rightarrow> error + handler" where
  "move_to_alloc hs cnt memSize pushBig setRawX =
     (let st = mStack hs; src = stack_end st - int (unat memSize) in
      if \<not> in_buffer st src (unat memSize) then Inl OutOfBounds
      else and_then (if cnt < LFJ_MAX_UINT16
                     then memPush (mOPA (mDoc hs)) (lf_data st) (nat src) memSize
                     else pushBig (mOPA (mDoc hs)) (lf_data st) (nat src) cnt) (\<lambda>(ptr, pa).
             let st1 = decrement st (unat memSize); doc = (mDoc hs)\<lparr>mOPA := pa\<rparr>
             in if lf_size st1 = 0
                then Inr (hs\<lparr>mDoc := doc\<lparr>mRoot := setRawX (mRoot doc) 0 ptr cnt\<rparr>, mStack := st1\<rparr>)
                else if in_buffer st1 (lastValue st1) sizeof_ConstValue
                then Inr (hs\<lparr>mDoc := doc,
                              mStack := st1\<lparr>lf_data := setRawX (lf_data st1) (nat (lastValue st1)) ptr cnt\<rparr>\<rparr>)
                else Inl OutOfBounds))"

definition endObject :: "handler \<Rightarrow> 32 word \<Rightarrow> error + handler" where
  "endObject hs memberCount =
     and_then (if memberCount > 0
               then move_to_alloc hs memberCount (memberCount * of_nat sizeof_ConstMember)
                      memPushBigObject setRawObject
               else Inr hs) (\<lambda>hs1. Inr (hs1\<lparr>mArrayType := ARRAY\<rparr>))"

definition endArray :: "handler \<Rightarrow> 32 word \<Rightarrow> error + handler" where
  "endArray hs elementCount =
     and_then (if elementCount > 0
               then (case mArrayType hs of
                       ARRAY \<Rightarrow> move_to_alloc hs elementCount (elementCount * of_nat sizeof_ConstValue)
                                  memPushBigArray setRawArray
                     | BARRAY \<Rightarrow> move_to_alloc hs elementCount (elementCount * 1)
                                  memPushBigBArray setRawBArray
                     | IARRAY \<Rightarrow> move_to_alloc hs elementCount (elementCount * 8)
                                  memPushBigIArray setRawIArray
                     | DARRAY \<Rightarrow> move_to_alloc hs elementCount (elementCount * 8)
                                  memPushBigDArray setRawDArray
                     | _ \<Rightarrow> Inr hs)
               else Inr hs) (\<lambda>hs1. Inr (hs1\<lparr>mArrayType := ARRAY\<rparr>))"

text \<open>The scalar events.\<close>

definition pushKey :: "(string \<Rightarrow> 32 word) \<Rightarrow> handler \<Rightarrow> string \<Rightarrow> bool \<Rightarrow> int \<Rightarrow> error + handler" where
  "pushKey h hs str copy n =
     and_then (at_end hs sizeof_ConstMember (inPlaceMember h str copy n))
       (\<lambda>hs1. Inr (hs1\<lparr>mMemberVal := True\<rparr>))"


definition pushBool :: "handler \<Rightarrow> bool \<Rightarrow> error + handler" where
  "pushBool hs b =
     (if mMemberVal hs then at_lastValue hs (inPlaceValue_bool b)
      else and_then (convertedFor BARRAY hs) (\<lambda>(specialized, hs1).
             if specialized
             then at_end hs1 1 (\<lambda>doc m dst. Inr (doc, m(dst := (if b then 1 else 0))))
             else at_end hs1 sizeof_ConstValue (inPlaceValue_bool b)))"

definition pushInt64 :: "handler \<Rightarrow> int64 \<Rightarrow> error + handler" where
  "pushInt64 hs i64 =
     (if mMemberVal hs then at_lastValue hs (inPlaceValue_int64 i64)
      else and_then (convertedFor IARRAY hs) (\<lambda>(specialized, hs1).
             if specialized
             then (if mArrayType hs1 = IARRAY
                   then at_end hs1 8 (\<lambda>doc m dst. Inr (doc, store_u64 m dst i64))
                   else at_end hs1 8 (\<lambda>doc m dst. Inr (doc, store_u64 m dst (double_of_int64 i64))))
             else at_end hs1 sizeof_ConstValue (inPlaceValue_int64 i64)))"

definition pushInt :: "handler \<Rightarrow> 32 word \<Rightarrow> error + handler" where
  "pushInt hs i = pushInt64 hs (scast i)"



definition pushDouble :: "handler \<Rightarrow> double \<Rightarrow> error + handler" where
  "pushDouble hs d =
     (if mMemberVal hs then at_lastValue hs (inPlaceValue_double d)
      else and_then (convertedFor DARRAY hs) (\<lambda>(specialized, hs1).
             if specialized
             then at_end hs1 8 (\<lambda>doc m dst. Inr (doc, store_u64 m dst d))
             else at_end hs1 sizeof_ConstValue (inPlaceValue_double d)))"

definition pushString :: "(string \<Rightarrow> 32 word) \<Rightarrow> handler \<Rightarrow> string \<Rightarrow> bool \<Rightarrow> int \<Rightarrow> error + handler" where
  "pushString h hs str copy n =
     (if mMemberVal hs then at_lastValue hs (inPlaceValue_string h str copy n)
      else and_then (convertedFor ARRAY hs) (\<lambda>(specialized, hs1).
             at_end hs1 sizeof_ConstValue (inPlaceValue_string h str copy n)))"

section \<open>Event sequences\<close>

text \<open>
  The event sequences of the specification's examples, each on the handler of a fresh
  document. \<open>a\<close> and \<open>b\<close> are the address functions of the two allocators, \<open>r\<close>
  and \<open>d\<close> the indeterminate bytes of the root cell and of the stack buffer.
\<close>

definition fresh_handler :: "(nat \<Rightarrow> nat) \<Rightarrow> (nat \<Rightarrow> nat) \<Rightarrow> memory \<Rightarrow> memory \<Rightarrow> bool \<Rightarrow> handler" where
  "fresh_handler a b r d allowIntToDouble = Handler (Document a b r) allowIntToDouble d"

text \<open>The bit patterns of the doubles 1.0, 2.0 and 3.5.\<close>

definition double_1_0 :: double where
  "double_1_0 = 0x3FF0000000000000"

definition double_2_0 :: double where
  "double_2_0 = 0x4000000000000000"

definition double_3_5 :: double where
  "double_3_5 = 0x400C000000000000"

text \<open>\<open>startArray, pushInt64(1), pushInt64(2), pushDouble(3.5)\<close> and then \<open>endArray(3)\<close>.\<close>

definition int_int_double_pushed :: "handler \<Rightarrow> error + handler" where
  "int_int_double_pushed hs =
     and_then (and_then (and_then (startArray hs) (\<lambda>hs1. pushInt64 hs1 1)) (\<lambda>hs2. pushInt64 hs2 2))
       (\<lambda>hs3. pushDouble hs3 double_3_5)"

definition int_int_double_scenario :: "handler \<Rightarrow> error + handler" where
  "int_int_double_scenario hs = and_then (int_int_double_pushed hs) (\<lambda>hs4. endArray hs4 3)"

text \<open>\<open>startArray, pushBool(true), pushInt64(1)\<close> and then \<open>endArray(2)\<close>.\<close>

definition bool_int_pushed :: "handler \<Rightarrow> error + handler" where
  "bool_int_pushed hs =
     and_then (and_then (startArray hs) (\<lambda>hs1. pushBool hs1 True)) (\<lambda>hs2. pushInt64 hs2 1)"

definition bool_int_scenario :: "handler \<Rightarrow> error + handler" where
  "bool_int_scenario hs = and_then (bool_int_pushed hs) (\<lambda>hs3. endArray hs3 2)"

text \<open>What a root array of doubles shows to a reader: tag, size, and the first \<open>n\<close> values.\<close>

definition root_darray :: "handler \<Rightarrow> nat \<Rightarrow> JType option \<times> 32 word \<times> double list" where
  "root_darray hs n =
     (let root = mRoot (mDoc hs)
      in (cell_type root 0, cell_size root 0,
          map (\<lambda>i. load_u64 (mem (mOPA (mDoc hs))) (cell_ptr root 0 + 8 * i)) [0 ..< n]))"












section \<open>Properties of the pool allocator\<close>

lemmas allocator_defs =
  allocate_def PoolAllocator_def alignSize_def chunkable_def base_allocate_def Chunk_def avail_def
  Let_def deallocate_def findChunk_def release_in_chunk_def mChunksCount_def DeadCell_setSize_def
  DeadCell_setNext_def DeadCell_getSize_def DeadCell_getNext_def allocateFromDead_at_def
  allocateFromDead_def totalDead_of_def findChunk_loop.simps

lemmas allocateFromDead_loop_numeral =
  allocateFromDead_loop.simps(2) [of "pred_numeral k" for k, folded numeral_eq_Suc]

text \<open>
  Claim C7, as stated, fails: with three 16-byte regions in a 64-byte chunk the chunk still
  has 16 bytes available after \<open>C\<close>, and \<open>allocate\<close> takes the tail of the last-used
  chunk before it looks at dead cells. The 15 bytes are placed behind \<open>C\<close>, not in the
  slot of \<open>B\<close>, and \<open>totalDead()\<close> stays 16.
\<close>

theorem three_regions_counterexample:
  "three_regions_scenario page_base = Some (8192, 8208, 8224, 8240, 16)"
  by (simp add: three_regions_scenario_def page_base_def allocator_defs)

text \<open>
  Claim C7, amended. For every base allocator: after three 16-byte regions and the
  deallocation of \<open>B\<close>, \<open>allocate(15)\<close> returns the 16 bytes behind \<open>C\<close> and
  \<open>totalDead()\<close> is 16; when a fourth 16-byte region has filled the chunk before \<open>B\<close>
  is deallocated, \<open>allocate(15)\<close> returns the slot of \<open>B\<close> and \<open>totalDead()\<close> is 0
  again.
\<close>

theorem dead_cell_recycling:
  "three_regions_scenario b = Some (b 1, b 1 + 16, b 1 + 32, b 1 + 48, 16)
   \<and> four_regions_scenario b = Some (b 1, b 1 + 16, b 1 + 32, b 1 + 48, b 1 + 16, 0)"
  by (simp add: three_regions_scenario_def four_regions_scenario_def allocator_defs
      allocateFromDead_loop_numeral)

section \<open>Properties of the string pool\<close>

lemma of_char_nat_eq: "(of_char a :: nat) = of_char b \<longleftrightarrow> a = b"
  by (metis char_of_char)

lemma memcmp_range: "memcmp a b = -1 \<or> memcmp a b = 0 \<or> memcmp a b = 1"
  by (induction a b rule: memcmp.induct) auto

lemma memcmp_zero: "length a = length b \<Longrightarrow> memcmp a b = 0 \<longleftrightarrow> a = b"
  by (induction a b rule: memcmp.induct) (auto simp: of_char_nat_eq)

lemma memcmp_neg: "length a = length b \<Longrightarrow> memcmp a b < 0 \<longleftrightarrow> (a, b) \<in> lexord byte_rel"
  by (induction a b rule: memcmp.induct) (auto simp: byte_rel_def of_char_nat_eq)

lemma memcmp_pos: "length a = length b \<Longrightarrow> memcmp a b > 0 \<longleftrightarrow> (b, a) \<in> lexord byte_rel"
  by (induction a b rule: memcmp.induct) (auto simp: byte_rel_def of_char_nat_eq)

lemma compare_zero: "compare js b = 0 \<longleftrightarrow> c_str js = b"
  using memcmp_zero [of "c_str js" b] by (auto simp: compare_def len_def Let_def)

lemma compare_neg: "compare js b < 0 \<longleftrightarrow> bytes_less (c_str js) b"
  using memcmp_neg [of "c_str js" b] by (auto simp: compare_def len_def Let_def bytes_less_def)

lemma compare_pos: "compare js b > 0 \<longleftrightarrow> bytes_less b (c_str js)"
  using memcmp_pos [of "c_str js" b] by (auto simp: compare_def len_def Let_def bytes_less_def)

lemma byte_rel_trans: "trans byte_rel"
  by (auto simp: byte_rel_def trans_def)

lemma bytes_less_irrefl: "\<not> bytes_less a a"
  by (auto simp: bytes_less_def byte_rel_def lexord_irreflexive)

lemma bytes_less_trans: "bytes_less a b \<Longrightarrow> bytes_less b c \<Longrightarrow> bytes_less a c"
  using lexord_trans [OF _ _ byte_rel_trans] by (auto simp: bytes_less_def)

lemma bytes_less_total: "bytes_less a b \<or> a = b \<or> bytes_less b a"
proof -
  have "(a, b) \<in> lexord byte_rel \<or> a = b \<or> (b, a) \<in> lexord byte_rel"
    by (rule lexord_linear) (auto simp: byte_rel_def of_char_nat_eq)
  then show ?thesis by (auto simp: bytes_less_def)
qed

lemma bytes_less_asym: "bytes_less a b \<Longrightarrow> \<not> bytes_less b a"
  using bytes_less_trans bytes_less_irrefl by blast

lemma chain_sorted_Cons [simp]:
  "chain_sorted (x # xs) \<longleftrightarrow> (\<forall>y\<in>set xs. bytes_less (c_str x) (c_str y)) \<and> chain_sorted xs"
  by (simp add: chain_sorted_def)

lemma chain_sorted_Nil [simp]: "chain_sorted []"
  by (simp add: chain_sorted_def)

lemma chain_sorted_distinct: "chain_sorted xs \<Longrightarrow> distinct (map c_str xs)"
  by (induction xs) (auto simp: bytes_less_irrefl)

lemma c_str_updateIsKey [simp]: "c_str (updateIsKey x k) = c_str x"
  by (simp add: updateIsKey_def)

lemma addr_updateIsKey [simp]: "addr (updateIsKey x k) = addr x"
  by (simp add: updateIsKey_def)

lemma pushNewString_mset: "mset (pushNewString js chain) = add_mset js (mset chain)"
  by (induction chain) auto

lemma pushNewString_set: "set (pushNewString js chain) = insert js (set chain)"
  by (induction chain) auto

lemma pushNewString_sorted:
  "chain_sorted chain \<Longrightarrow> c_str js \<notin> c_str ` set chain \<Longrightarrow> chain_sorted (pushNewString js chain)"
proof (induction chain)
  case Nil
  then show ?case by simp
next
  case (Cons it rest)
  show ?case
  proof (cases "compare it (c_str js) > 0")
    case True
    then have lt: "bytes_less (c_str js) (c_str it)" by (simp add: compare_pos)
    with Cons.prems show ?thesis
      using True by (auto intro: bytes_less_trans)
  next
    case False
    moreover have "c_str it \<noteq> c_str js" using Cons.prems by auto
    ultimately have "bytes_less (c_str it) (c_str js)"
      using bytes_less_total [of "c_str it" "c_str js"] by (auto simp: compare_pos)
    with Cons False show ?thesis
      by (auto simp: pushNewString_set)
  qed
qed

lemma provide_chain_absent:
  assumes "chain_sorted chain" "c_str new \<notin> c_str ` set chain"
  shows "\<exists>chain'. provide_chain new key chain = (False, new, chain')
           \<and> mset chain' = add_mset new (mset chain) \<and> chain_sorted chain'"
  using assms
proof (induction chain)
  case Nil
  then show ?case by simp
next
  case (Cons it rest)
  have ne: "compare it (c_str new) \<noteq> 0" using Cons.prems by (auto simp: compare_zero)
  show ?case
  proof (cases "compare it (c_str new) > 0")
    case True
    then have "bytes_less (c_str new) (c_str it)" by (simp add: compare_pos)
    with Cons.prems True ne show ?thesis
      by (auto intro: bytes_less_trans)
  next
    case False
    with ne have lt: "bytes_less (c_str it) (c_str new)"
      using bytes_less_total [of "c_str it" "c_str new"] by (auto simp: compare_pos compare_zero)
    from Cons obtain chain' where c: "provide_chain new key rest = (False, new, chain')"
      "mset chain' = add_mset new (mset rest)" "chain_sorted chain'" by auto
    from c(2) have "set chain' = insert new (set rest)"
      by (metis set_mset_add_mset_insert set_mset_mset)
    with c lt Cons.prems False ne show ?thesis by auto
  qed
qed

lemma provide_chain_present:
  assumes "chain_sorted chain" "x \<in> set chain" "c_str x = c_str new"
  shows "\<exists>chain'. provide_chain new key chain = (True, updateIsKey x key, chain')
           \<and> map c_str chain' = map c_str chain \<and> map addr chain' = map addr chain
           \<and> updateIsKey x key \<in> set chain' \<and> length chain' = length chain"
  using assms
proof (induction chain)
  case Nil
  then show ?case by simp
next
  case (Cons it rest)
  show ?case
  proof (cases "it = x")
    case True
    with Cons.prems show ?thesis by (simp add: compare_zero [THEN iffD2])
  next
    case False
    with Cons.prems have xin: "x \<in> set rest" by auto
    with Cons.prems have lt: "bytes_less (c_str it) (c_str new)" by auto
    then have "compare it (c_str new) < 0" by (simp add: compare_neg)
    moreover from Cons xin obtain chain' where "provide_chain new key rest = (True, updateIsKey x key, chain')"
      "map c_str chain' = map c_str rest" "map addr chain' = map addr rest"
      "updateIsKey x key \<in> set chain'" "length chain' = length rest" by auto
    ultimately show ?thesis by auto
  qed
qed

lemma releaseValues_head_eq:
  "releaseValues_head chain cnt =
     (dropWhile (\<lambda>x. \<not> isKey x) chain, cnt - length (takeWhile (\<lambda>x. \<not> isKey x) chain))"
  by (induction chain arbitrary: cnt) auto

lemma releaseValues_remaining_eq:
  "releaseValues_remaining chain cnt =
     (filter isKey chain, cnt - length (filter (\<lambda>x. \<not> isKey x) chain))"
  by (induction chain arbitrary: cnt) auto

lemma filter_dropWhile_key: "filter isKey (dropWhile (\<lambda>x. \<not> isKey x) chain) = filter isKey chain"
  by (induction chain) auto

lemma length_nonkey_split:
  "length (takeWhile (\<lambda>x. \<not> isKey x) chain) + length (filter (\<lambda>x. \<not> isKey x) (dropWhile (\<lambda>x. \<not> isKey x) chain))
     = length (filter (\<lambda>x. \<not> isKey x) chain)"
  by (induction chain) auto

lemma releaseValues_chain_eq:
  "releaseValues_chain chain cnt =
     (filter isKey chain, cnt - length (filter (\<lambda>x. \<not> isKey x) chain))"
proof (cases "dropWhile (\<lambda>x. \<not> isKey x) chain")
  case Nil
  have "filter isKey chain = []"
    using filter_dropWhile_key [of chain] by (simp add: Nil)
  moreover have "length (filter (\<lambda>x. \<not> isKey x) chain) = length (takeWhile (\<lambda>x. \<not> isKey x) chain)"
    using length_nonkey_split [of chain] by (simp add: Nil)
  ultimately show ?thesis
    by (simp add: releaseValues_chain_def releaseValues_head_eq Nil)
next
  case (Cons it rest)
  then have k: "isKey it" using hd_dropWhile [of "\<lambda>x. \<not> isKey x" chain] by auto
  have f: "filter isKey chain = it # filter isKey rest"
    using filter_dropWhile_key [of chain] Cons k by auto
  have l: "length (filter (\<lambda>x. \<not> isKey x) chain)
            = length (takeWhile (\<lambda>x. \<not> isKey x) chain) + length (filter (\<lambda>x. \<not> isKey x) rest)"
    using length_nonkey_split [of chain] Cons k by auto
  show ?thesis
    by (simp add: releaseValues_chain_def releaseValues_head_eq Cons releaseValues_remaining_eq f l)
qed

lemma releaseValues_buckets_eq:
  "releaseValues_buckets bs cnt =
     (map (filter isKey) bs, cnt - length (filter (\<lambda>x. \<not> isKey x) (concat bs)))"
  by (induction bs arbitrary: cnt) (auto simp: releaseValues_chain_eq)

lemma pool_inv_buckets: "pool_inv h p \<longleftrightarrow> buckets_inv h (mBuckets p) \<and> mItemCount p = length (concat (mBuckets p))"
  by (auto simp: pool_inv_def buckets_inv_def chains_sorted_def no_duplicates_def count_matches_def pool_strings_def)

lemma mset_concat_update:
  "i < length bs \<Longrightarrow> mset (concat (bs[i := c])) + mset (bs ! i) = mset (concat bs) + mset c"
proof (induction bs arbitrary: i)
  case Nil
  then show ?case by simp
next
  case (Cons b bs)
  then show ?case by (cases i) (auto simp: ac_simps)
qed

lemma mset_concat_update_add:
  assumes "i < length bs" "mset c = add_mset x (mset (bs ! i))"
  shows "mset (concat (bs[i := c])) = add_mset x (mset (concat bs))"
  using mset_concat_update [OF assms(1), of c] assms(2) by simp

lemma set_concat_update_add:
  assumes "i < length bs" "mset c = add_mset x (mset (bs ! i))"
  shows "set (concat (bs[i := c])) = insert x (set (concat bs))"
  using mset_concat_update_add [OF assms] by (metis set_mset_add_mset_insert set_mset_mset)

lemma distinct_map_mset_add:
  assumes "mset ys = add_mset x (mset xs)" "distinct (map f xs)" "f x \<notin> f ` set xs"
  shows "distinct (map f ys)"
proof -
  have "mset (map f ys) = mset (map f (x # xs))" using assms(1) by simp
  then have "distinct (map f ys) \<longleftrightarrow> distinct (map f (x # xs))" by (rule mset_eq_imp_distinct_iff)
  with assms show ?thesis by simp
qed

lemma placed_absent:
  assumes "well_placed h bs" "bs \<noteq> []" "s \<notin> c_str ` set (bs ! fastMod (h s) (length bs))"
  shows "s \<notin> c_str ` set (concat bs)"
proof
  assume "s \<in> c_str ` set (concat bs)"
  then obtain js chain where js: "js \<in> set chain" "chain \<in> set bs" "c_str js = s" by auto
  then obtain i where i: "i < length bs" "bs ! i = chain" by (auto simp: in_set_conv_nth)
  with assms(1) js have "fastMod (h s) (length bs) = i" by (auto simp: well_placed_def)
  with i js assms(3) show False by auto
qed

lemma fastMod_less: "n > 0 \<Longrightarrow> fastMod x n < n"
  by (simp add: fastMod_def)

lemma buckets_inv_insert:
  assumes inv: "buckets_inv h bs" and ne: "bs \<noteq> []"
    and idx: "index = fastMod (h (c_str js)) (length bs)"
    and c: "mset c = add_mset js (mset (bs ! index))" "chain_sorted c"
    and fresh: "c_str js \<notin> c_str ` set (concat bs)"
  shows "buckets_inv h (bs[index := c]) \<and> mset (concat (bs[index := c])) = add_mset js (mset (concat bs))"
proof -
  have lt: "index < length bs" using ne idx by (simp add: fastMod_less)
  have m: "mset (concat (bs[index := c])) = add_mset js (mset (concat bs))"
    using mset_concat_update_add [OF lt c(1)] .
  have s: "\<forall>chain\<in>set (bs[index := c]). chain_sorted chain"
    using inv c(2) by (auto simp: buckets_inv_def dest!: set_update_subset_insert [THEN subsetD])
  have d: "distinct (map c_str (concat (bs[index := c])))"
    using distinct_map_mset_add [OF m] inv fresh by (auto simp: buckets_inv_def)
  have setc: "set c = insert js (set (bs ! index))"
    using c(1) by (metis set_mset_add_mset_insert set_mset_mset)
  have w: "well_placed h (bs[index := c])"
    unfolding well_placed_def
  proof (intro allI impI ballI)
    fix i x assume i: "i < length (bs[index := c])" and x: "x \<in> set (bs[index := c] ! i)"
    show "fastMod (h (c_str x)) (length (bs[index := c])) = i"
    proof (cases "i = index")
      case True
      with x lt setc have "x = js \<or> x \<in> set (bs ! index)" by auto
      with True idx inv lt show ?thesis by (auto simp: buckets_inv_def well_placed_def)
    next
      case False
      with x i inv show ?thesis by (auto simp: buckets_inv_def well_placed_def)
    qed
  qed
  from m s d w show ?thesis by (simp add: buckets_inv_def)
qed

lemma rehash_string_inv:
  assumes "buckets_inv h bs" "bs \<noteq> []" "c_str js \<notin> c_str ` set (concat bs)"
  shows "buckets_inv h (rehash_string h bs js)
       \<and> mset (concat (rehash_string h bs js)) = add_mset js (mset (concat bs))
       \<and> length (rehash_string h bs js) = length bs"
proof -
  let ?i = "fastMod (h (c_str js)) (length bs)"
  have lt: "?i < length bs" using assms(2) by (simp add: fastMod_less)
  have "c_str js \<notin> c_str ` set (bs ! ?i)" using assms(3) lt by (auto simp: image_iff)
  moreover have "chain_sorted (bs ! ?i)" using assms(1) lt by (auto simp: buckets_inv_def)
  ultimately have "chain_sorted (pushNewString js (bs ! ?i))" by (simp add: pushNewString_sorted)
  then show ?thesis
    using buckets_inv_insert [OF assms(1,2) refl pushNewString_mset _ assms(3)]
    by (simp add: rehash_string_def Let_def)
qed

lemma rehash_fold_inv:
  assumes "buckets_inv h bs" "bs \<noteq> []" "distinct (map c_str xs)" "c_str ` set xs \<inter> c_str ` set (concat bs) = {}"
  shows "buckets_inv h (foldl (rehash_string h) bs xs)
       \<and> mset (concat (foldl (rehash_string h) bs xs)) = mset xs + mset (concat bs)
       \<and> length (foldl (rehash_string h) bs xs) = length bs"
  using assms
proof (induction xs arbitrary: bs)
  case Nil
  then show ?case by simp
next
  case (Cons x xs)
  have fresh: "c_str x \<notin> c_str ` set (concat bs)" using Cons.prems(4) by auto
  note r = rehash_string_inv [OF Cons.prems(1,2) fresh]
  have ne: "rehash_string h bs x \<noteq> []" using r Cons.prems(2) by auto
  have "set (concat (rehash_string h bs x)) = insert x (set (concat bs))"
    using r by (metis set_mset_add_mset_insert set_mset_mset)
  then have disj: "c_str ` set xs \<inter> c_str ` set (concat (rehash_string h bs x)) = {}"
    using Cons.prems(3,4) by auto
  have d: "distinct (map c_str xs)" using Cons.prems(3) by simp
  from Cons.IH [OF conjunct1 [OF r] ne d disj] r show ?case by simp
qed

lemma buckets_inv_replicate: "buckets_inv h (replicate n [])"
  by (auto simp: buckets_inv_def well_placed_def)

lemma concat_replicate_Nil [simp]: "concat (replicate n []) = []"
  by (induction n) auto

lemma rehash_loop_inv:
  assumes "buckets_inv h nb" "nb \<noteq> []" "distinct (map c_str (concat bs))"
    "c_str ` set (concat bs) \<inter> c_str ` set (concat nb) = {}"
    "cnt + length (concat bs) = items"
  shows "\<exists>nb'. rehash_loop h bs cnt items nb = Inr nb' \<and> buckets_inv h nb'
           \<and> mset (concat nb') = mset (concat bs) + mset (concat nb) \<and> length nb' = length nb"
  using assms
proof (induction bs arbitrary: cnt nb)
  case Nil
  then show ?case by simp
next
  case (Cons chain rest)
  show ?case
  proof (cases "cnt < items")
    case False
    with Cons.prems(5) have "concat (chain # rest) = []" by auto
    with False Cons.prems(1) show ?thesis by simp
  next
    case True
    have d1: "distinct (map c_str chain)" and d2: "distinct (map c_str (concat rest))"
      and d3: "c_str ` set chain \<inter> c_str ` set (concat rest) = {}"
      using Cons.prems(3) by auto
    have disj1: "c_str ` set chain \<inter> c_str ` set (concat nb) = {}"
      using Cons.prems(4) by auto
    note f = rehash_fold_inv [OF Cons.prems(1,2) d1 disj1]
    let ?nb = "foldl (rehash_string h) nb chain"
    have ne: "?nb \<noteq> []" using f Cons.prems(2) by auto
    have "set (concat ?nb) = set chain \<union> set (concat nb)"
      using f by (metis set_mset_mset set_mset_union)
    moreover have "c_str ` set (concat rest) \<inter> c_str ` set (concat nb) = {}"
      using Cons.prems(4) by (simp add: image_Un Int_Un_distrib2)
    ultimately have disj2: "c_str ` set (concat rest) \<inter> c_str ` set (concat ?nb) = {}"
      using d3 by (simp add: image_Un Int_Un_distrib Int_commute)
    have c: "cnt + length chain + length (concat rest) = items" using Cons.prems(5) by simp
    from Cons.IH [OF conjunct1 [OF f] ne d2 disj2 c] obtain nb' where
      "rehash_loop h rest (cnt + length chain) items ?nb = Inr nb'" "buckets_inv h nb'"
      "mset (concat nb') = mset (concat rest) + mset (concat ?nb)" "length nb' = length ?nb" by blast
    with f True Cons.prems(2) show ?thesis by (auto simp: ac_simps)
  qed
qed

lemma rehash_inv:
  assumes "pool_inv h p" "n > 0"
  shows "\<exists>p'. rehash h p n = Inr p' \<and> pool_inv h p' \<and> mset (pool_strings p') = mset (pool_strings p)
           \<and> mItemCount p' = mItemCount p \<and> mBucketCount p' = n \<and> allocAddr p' = allocAddr p"
proof -
  have inv: "buckets_inv h (mBuckets p)" and c: "0 + length (concat (mBuckets p)) = mItemCount p"
    using assms(1) by (auto simp: pool_inv_buckets)
  have d: "distinct (map c_str (concat (mBuckets p)))" using inv by (simp add: buckets_inv_def)
  have ne: "replicate n ([] :: jstring list) \<noteq> []" using assms(2) by auto
  from rehash_loop_inv [OF buckets_inv_replicate ne d _ c, of h]
  obtain nb' where nb: "rehash_loop h (mBuckets p) 0 (mItemCount p) (replicate n []) = Inr nb'"
    "buckets_inv h nb'" "mset (concat nb') = mset (concat (mBuckets p))" "length nb' = n"
    by auto
  from nb(3) have "length (concat nb') = length (concat (mBuckets p))" by (rule mset_eq_length)
  with nb c show ?thesis
    by (auto simp: rehash_def pool_inv_buckets pool_strings_def mBucketCount_def)
qed

lemma bit_length_pow: "n > 0 \<Longrightarrow> 2 ^ (bit_length n - 1) \<le> n"
proof (induction n rule: bit_length.induct)
  case (1 n)
  show ?case
  proof (cases "n div 2 = 0")
    case True
    with 1 show ?thesis by (simp add: bit_length.simps [of n] bit_length.simps [of 0])
  next
    case False
    with 1 have ih: "2 ^ (bit_length (n div 2) - 1) \<le> n div 2" by simp
    have "bit_length (n div 2) > 0" using False by (simp add: bit_length.simps [of "n div 2"])
    then have "(2::nat) ^ (bit_length n - 1) = 2 * 2 ^ (bit_length (n div 2) - 1)"
      using 1 by (simp add: bit_length.simps [of n] flip: power_Suc)
    with ih show ?thesis by simp
  qed
qed

lemma round_sig24_pos: "n > 0 \<Longrightarrow> round_sig24 n > 0"
proof (cases "n < 2 ^ 24")
  case True
  assume "n > 0" with True show ?thesis by (simp add: round_sig24_def)
next
  case False
  assume n: "n > 0"
  let ?e = "bit_length n - 24"
  have "(2::nat) ^ ?e \<le> 2 ^ (bit_length n - 1)" by (rule power_increasing) auto
  also have "\<dots> \<le> n" using n by (rule bit_length_pow)
  finally have "n div 2 ^ ?e > 0" by (simp add: div_greater_zero_iff)
  with False show ?thesis by (auto simp: round_sig24_def Let_def)
qed

lemma round_sig24_0 [simp]: "round_sig24 0 = 0"
  by (simp add: round_sig24_def)

lemma trunc_times_1_5_0 [simp]: "trunc_times_1_5 0 = 0"
  by (simp add: trunc_times_1_5_def)

lemma grow_inv:
  assumes "pool_inv h p"
  shows "\<exists>p'. grow h p = Inr p' \<and> pool_inv h p' \<and> mset (pool_strings p') = mset (pool_strings p)
           \<and> mItemCount p' = mItemCount p \<and> mBucketCount p' > 0 \<and> allocAddr p' = allocAddr p"
proof (cases "mItemCount p + 1 > trunc_times_1_5 (mBucketCount p)")
  case False
  then have "mBucketCount p > 0" by (cases "mBucketCount p = 0") auto
  with False assms show ?thesis by (simp add: grow_def)
next
  case True
  show ?thesis
  proof (cases "round_sig24 (mBucketCount p) < 2 ^ 31")
    case False
    then have "mBucketCount p > 0" by (cases "mBucketCount p = 0") auto
    with False True assms show ?thesis by (simp add: grow_def)
  next
    case lt: True
    show ?thesis
    proof (cases "mBucketCount p > 0")
      case pos: True
      then have "2 * round_sig24 (mBucketCount p) > 0" using round_sig24_pos by simp
      from rehash_inv [OF assms this] True lt pos round_sig24_pos [OF pos] show ?thesis
        by (auto simp: grow_def)
    next
      case zero: False
      have sp: "StartingBucketCount > 0" by (simp add: StartingBucketCount_def)
      from rehash_inv [OF assms sp] True lt zero sp show ?thesis by (auto simp: grow_def)
    qed
  qed
qed

lemma find_unique:
  "distinct (map f xs) \<Longrightarrow> x \<in> set xs \<Longrightarrow> find (\<lambda>y. f y = f x) xs = Some x"
  by (induction xs) (auto simp: image_iff)

lemma get_bytes_inv:
  assumes "pool_inv h p"
  shows "get_bytes h p s = Inr (find (\<lambda>js. c_str js = s) (pool_strings p))"
proof (cases "mItemCount p = 0")
  case True
  with assms have "pool_strings p = []" by (simp add: pool_inv_def count_matches_def)
  with True show ?thesis by (simp add: get_bytes_def)
next
  case False
  with assms have ne: "mBuckets p \<noteq> []"
    by (auto simp: pool_inv_def count_matches_def pool_strings_def)
  let ?i = "fastMod (h s) (length (mBuckets p))"
  have lt: "?i < length (mBuckets p)" using ne by (simp add: fastMod_less)
  have inv: "buckets_inv h (mBuckets p)" using assms by (simp add: pool_inv_buckets)
  have "find (\<lambda>js. c_str js = s) (mBuckets p ! ?i) = find (\<lambda>js. c_str js = s) (concat (mBuckets p))"
  proof (cases "s \<in> c_str ` set (mBuckets p ! ?i)")
    case False
    with placed_absent [of h "mBuckets p" s] inv ne have "s \<notin> c_str ` set (concat (mBuckets p))"
      by (simp add: buckets_inv_def)
    with False have "find (\<lambda>js. c_str js = s) (mBuckets p ! ?i) = None"
      "find (\<lambda>js. c_str js = s) (concat (mBuckets p)) = None"
      by (auto simp: find_None_iff image_iff)
    then show ?thesis by simp
  next
    case True
    then obtain x where x: "x \<in> set (mBuckets p ! ?i)" "c_str x = s" by auto
    then have xin: "x \<in> set (concat (mBuckets p))" using lt by auto
    have d: "distinct (map c_str (concat (mBuckets p)))" using inv by (simp add: buckets_inv_def)
    have "chain_sorted (mBuckets p ! ?i)" using inv lt by (auto simp: buckets_inv_def)
    then have d': "distinct (map c_str (mBuckets p ! ?i))" by (rule chain_sorted_distinct)
    from find_unique [OF d xin] find_unique [OF d' x(1)] x(2) show ?thesis by simp
  qed
  with False ne show ?thesis
    by (simp add: get_bytes_def mBucketCount_def pool_strings_def compare_zero)
qed

lemma releaseValues_eq:
  "releaseValues p = p\<lparr>mBuckets := map (filter isKey) (mBuckets p),
                        mItemCount := mItemCount p - length (filter (\<lambda>x. \<not> isKey x) (pool_strings p))\<rparr>"
  by (simp add: releaseValues_def releaseValues_buckets_eq pool_strings_def)

lemma pool_strings_releaseValues: "pool_strings (releaseValues p) = filter isKey (pool_strings p)"
  by (simp add: releaseValues_eq pool_strings_def filter_concat)

lemma chain_sorted_filter: "chain_sorted chain \<Longrightarrow> chain_sorted (filter P chain)"
  by (simp add: chain_sorted_def sorted_wrt_filter)

lemma releaseValues_inv:
  assumes "pool_inv h p"
  shows "pool_inv h (releaseValues p)"
proof -
  have "length (filter isKey (pool_strings p)) + length (filter (\<lambda>x. \<not> isKey x) (pool_strings p))
          = length (pool_strings p)"
    by (rule sum_length_filter_compl)
  then have c: "count_matches (releaseValues p)"
    using assms by (simp add: count_matches_def pool_strings_releaseValues pool_inv_def) (simp add: releaseValues_eq)
  have s: "chains_sorted (releaseValues p)"
    using assms by (auto simp: pool_inv_def chains_sorted_def releaseValues_eq chain_sorted_filter)
  have d: "no_duplicates (releaseValues p)"
    using assms by (simp add: pool_inv_def no_duplicates_def pool_strings_releaseValues distinct_map_filter)
  have w: "well_placed h (mBuckets (releaseValues p))"
    using assms by (auto simp: pool_inv_def well_placed_def releaseValues_eq)
  from c s d w show ?thesis by (simp add: pool_inv_def)
qed

lemma find_filter_key:
  "find P (filter Q xs) = (case find (\<lambda>x. P x \<and> Q x) xs of None \<Rightarrow> None | Some x \<Rightarrow> Some x)"
  by (induction xs) auto

lemma map_concat_update_same:
  assumes "i < length bs" "map f c = map f (bs ! i)"
  shows "map f (concat (bs[i := c])) = map f (concat bs)"
proof -
  have "map (map f) (bs[i := c]) = (map (map f) bs)[i := map (map f) bs ! i]"
    using assms by (simp add: map_update)
  then have "map (map f) (bs[i := c]) = map (map f) bs" by simp
  then show ?thesis by (simp add: map_concat)
qed

lemma chain_sorted_map: "chain_sorted xs \<longleftrightarrow> sorted_wrt bytes_less (map c_str xs)"
  by (simp add: chain_sorted_def sorted_wrt_map)

lemma buckets_inv_update_same:
  assumes inv: "buckets_inv h bs" and lt: "i < length bs" and m: "map c_str c = map c_str (bs ! i)"
  shows "buckets_inv h (bs[i := c])"
proof -
  have "chain_sorted (bs ! i)" using inv lt by (auto simp: buckets_inv_def)
  then have sc: "chain_sorted c" using m by (simp add: chain_sorted_map)
  have s: "\<forall>chain\<in>set (bs[i := c]). chain_sorted chain"
    using inv sc by (auto simp: buckets_inv_def dest!: set_update_subset_insert [THEN subsetD])
  have d: "distinct (map c_str (concat (bs[i := c])))"
    using inv map_concat_update_same [OF lt m] by (simp add: buckets_inv_def)
  have setc: "c_str ` set c = c_str ` set (bs ! i)"
    using m by (metis set_map)
  have w: "well_placed h (bs[i := c])"
    unfolding well_placed_def
  proof (intro allI impI ballI)
    fix j x assume j: "j < length (bs[i := c])" and x: "x \<in> set (bs[i := c] ! j)"
    show "fastMod (h (c_str x)) (length (bs[i := c])) = j"
    proof (cases "j = i")
      case True
      with x lt have "c_str x \<in> c_str ` set (bs ! i)" using setc by auto
      then obtain y where y: "y \<in> set (bs ! i)" "c_str y = c_str x" by auto
      from inv lt y(1) have "fastMod (h (c_str y)) (length bs) = i"
        by (simp add: buckets_inv_def well_placed_def)
      with True y(2) show ?thesis by simp
    next
      case False
      with x j inv show ?thesis by (auto simp: buckets_inv_def well_placed_def)
    qed
  qed
  from s d w show ?thesis by (simp add: buckets_inv_def)
qed

lemma provide_bytes_inv:
  assumes "pool_inv h p"
  shows "\<exists>js found p'. provide_bytes h p s own key = Inr ((js, found), p') \<and> pool_inv h p'
           \<and> c_str js = s \<and> js \<in> set (pool_strings p') \<and> allocAddr p' = allocAddr p
           \<and> (found \<longleftrightarrow> s \<in> c_str ` set (pool_strings p))
           \<and> (found \<longrightarrow> mItemCount p' = mItemCount p
                 \<and> (\<exists>x\<in>set (pool_strings p). c_str x = s \<and> js = updateIsKey x key)
                 \<and> image_mset ident (mset (pool_strings p')) = image_mset ident (mset (pool_strings p)))
           \<and> (\<not> found \<longrightarrow> mItemCount p' = Suc (mItemCount p)
                 \<and> owns js = own \<and> isKey js = key
                 \<and> (\<exists>q. mset (pool_strings q) = mset (pool_strings p) \<and> mset (pool_strings p') = add_mset js (mset (pool_strings q))))"
proof -
  from grow_inv [OF assms] obtain q where q: "grow h p = Inr q" "pool_inv h q"
    "mset (pool_strings q) = mset (pool_strings p)" "mItemCount q = mItemCount p" "mBucketCount q > 0"
    "allocAddr q = allocAddr p"
    by blast
  let ?bs = "mBuckets q"
  let ?i = "fastMod (h s) (mBucketCount q)"
  let ?new = "\<lparr>owns = own, isKey = key, c_str = s, addr = allocAddr q (allocCalls q)\<rparr>"
  have ne: "?bs \<noteq> []" using q(5) by (auto simp: mBucketCount_def)
  have lt: "?i < length ?bs" using q(5) by (simp add: fastMod_less mBucketCount_def)
  have inv: "buckets_inv h ?bs" and cnt: "mItemCount q = length (concat ?bs)"
    using q(2) by (auto simp: pool_inv_buckets)
  have sorted: "chain_sorted (?bs ! ?i)" using inv lt by (auto simp: buckets_inv_def)
  have seteq: "set (pool_strings q) = set (pool_strings p)" using q(3) by (metis set_mset_mset)
  show ?thesis
  proof (cases "s \<in> c_str ` set (?bs ! ?i)")
    case True
    then obtain x where x: "x \<in> set (?bs ! ?i)" "c_str x = s" by auto
    from provide_chain_present [OF sorted x(1), of ?new key] x(2)
    obtain chain' where c: "provide_chain ?new key (?bs ! ?i) = (True, updateIsKey x key, chain')"
      "map c_str chain' = map c_str (?bs ! ?i)" "map addr chain' = map addr (?bs ! ?i)"
      "updateIsKey x key \<in> set chain'" "length chain' = length (?bs ! ?i)" by auto
    let ?p' = "q\<lparr>mBuckets := ?bs[?i := chain']\<rparr>"
    have r: "provide_bytes h p s own key = Inr ((updateIsKey x key, True), ?p')"
      using q(1,5) c(1) by (simp add: provide_bytes_def Let_def)
    have inv': "buckets_inv h (?bs[?i := chain'])"
      by (rule buckets_inv_update_same [OF inv lt c(2)])
    have "map ident chain' = map ident (?bs ! ?i)"
      using c(2,3) by (auto simp: list_eq_iff_nth_eq ident_def dest!: arg_cong [where f = "\<lambda>l. l ! _"])
    then have mi: "map ident (concat (?bs[?i := chain'])) = map ident (concat ?bs)"
      by (rule map_concat_update_same [OF lt])
    then have len: "length (concat (?bs[?i := chain'])) = length (concat ?bs)"
      by (metis length_map)
    have pinv: "pool_inv h ?p'" using inv' cnt len by (simp add: pool_inv_buckets)
    have xin: "x \<in> set (pool_strings p)" using x(1) lt seteq by (auto simp: pool_strings_def)
    have jin: "updateIsKey x key \<in> set (pool_strings ?p')"
      using c(4) lt by (auto simp: pool_strings_def) (metis length_list_update nth_list_update_eq nth_mem)
    have "mset (map ident (concat (?bs[?i := chain']))) = mset (map ident (concat ?bs))"
      using mi by simp
    also have "\<dots> = image_mset ident (mset (pool_strings p))"
      using q(3) by (simp add: pool_strings_def)
    finally have im: "image_mset ident (mset (pool_strings ?p')) = image_mset ident (mset (pool_strings p))"
      by (simp add: pool_strings_def)
    have pres: "s \<in> c_str ` set (pool_strings p)" using xin x(2) by auto
    from r pinv jin im pres xin x(2) q(4,6) show ?thesis by auto
  next
    case False
    from provide_chain_absent [OF sorted, of ?new key] False
    obtain chain' where c: "provide_chain ?new key (?bs ! ?i) = (False, ?new, chain')"
      "mset chain' = add_mset ?new (mset (?bs ! ?i))" "chain_sorted chain'" by auto
    let ?p' = "q\<lparr>mBuckets := ?bs[?i := chain'], mItemCount := mItemCount q + 1, allocCalls := Suc (allocCalls q)\<rparr>"
    have r: "provide_bytes h p s own key = Inr ((?new, False), ?p')"
      using q(1,5) c(1) by (simp add: provide_bytes_def Let_def)
    have abs: "s \<notin> c_str ` set (concat ?bs)"
      using placed_absent [of h ?bs s] inv ne False by (simp add: buckets_inv_def mBucketCount_def)
    have idx: "?i = fastMod (h (c_str ?new)) (length ?bs)" by (simp add: mBucketCount_def)
    from buckets_inv_insert [OF inv ne idx c(2,3)] abs
    have inv': "buckets_inv h (?bs[?i := chain'])"
      and m: "mset (concat (?bs[?i := chain'])) = add_mset ?new (mset (concat ?bs))" by auto
    from m have "length (concat (?bs[?i := chain'])) = Suc (length (concat ?bs))"
      by (metis mset_eq_length length_Cons mset.simps(2))
    with inv' cnt have pinv: "pool_inv h ?p'" by (simp add: pool_inv_buckets)
    have "set (concat (?bs[?i := chain'])) = insert ?new (set (concat ?bs))"
      using m by (metis set_mset_add_mset_insert set_mset_mset)
    then have jin: "?new \<in> set (pool_strings ?p')"
      unfolding pool_strings_def by simp
    have nf: "s \<notin> c_str ` set (pool_strings p)" using abs seteq by (simp add: pool_strings_def)
    have ms: "mset (pool_strings ?p') = add_mset ?new (mset (pool_strings q))"
      using m by (simp add: pool_strings_def)
    from r pinv jin nf ms q(3,4,6) show ?thesis by auto
  qed
qed

lemma pool_inv_StringPool: "pool_inv h (StringPool a)"
  by (simp add: pool_inv_def StringPool_def chains_sorted_def no_duplicates_def count_matches_def
      well_placed_def pool_strings_def)

lemma pool_inv_StringPool_init: "pool_inv h (StringPool_init a n)"
  by (auto simp: pool_inv_def StringPool_init_def chains_sorted_def no_duplicates_def count_matches_def
      well_placed_def pool_strings_def)

lemma distinct_map_inj: "distinct (map f xs) \<Longrightarrow> x \<in> set xs \<Longrightarrow> y \<in> set xs \<Longrightarrow> f x = f y \<Longrightarrow> x = y"
  by (meson distinct_map inj_onD)

lemma find_SomeD: "find P xs = Some x \<Longrightarrow> x \<in> set xs \<and> P x"
  by (induction xs) (auto split: if_splits)

lemma get_bytes_releaseValues:
  assumes "pool_inv h p"
  shows "get_bytes h (releaseValues p) s =
           (case get_bytes h p s of
              Inr (Some js) \<Rightarrow> Inr (if isKey js then Some js else None)
            | r \<Rightarrow> r)"
proof -
  let ?xs = "pool_strings p"
  have d: "distinct (map c_str ?xs)" using assms by (simp add: pool_inv_def no_duplicates_def)
  have g: "get_bytes h p s = Inr (find (\<lambda>js. c_str js = s) ?xs)"
    by (rule get_bytes_inv [OF assms])
  have g': "get_bytes h (releaseValues p) s = Inr (find (\<lambda>js. c_str js = s) (filter isKey ?xs))"
    using get_bytes_inv [OF releaseValues_inv [OF assms]] by (simp add: pool_strings_releaseValues)
  show ?thesis
  proof (cases "find (\<lambda>js. c_str js = s) ?xs")
    case None
    then have "find (\<lambda>js. c_str js = s) (filter isKey ?xs) = None"
      by (auto simp: find_None_iff)
    with None g g' show ?thesis by simp
  next
    case (Some js)
    then have js: "js \<in> set ?xs" "c_str js = s"
      by (auto simp: find_Some_iff)
    show ?thesis
    proof (cases "isKey js")
      case True
      have "distinct (map c_str (filter isKey ?xs))" using d by (rule distinct_map_filter)
      from find_unique [OF this, of js] True js
      have "find (\<lambda>y. c_str y = s) (filter isKey ?xs) = Some js" by simp
      with Some g g' True show ?thesis by simp
    next
      case False
      have "find (\<lambda>y. c_str y = s) (filter isKey ?xs) = None"
      proof (rule ccontr)
        assume "find (\<lambda>y. c_str y = s) (filter isKey ?xs) \<noteq> None"
        then obtain y where "find (\<lambda>y. c_str y = s) (filter isKey ?xs) = Some y" by auto
        then have "y \<in> set (filter isKey ?xs) \<and> c_str y = s" by (rule find_SomeD)
        then have "y \<in> set ?xs" "isKey y" "c_str y = s" by auto
        with distinct_map_inj [OF d js(1), of y] js(2) False show False by auto
      qed
      with Some g g' False show ?thesis by simp
    qed
  qed
qed

text \<open>
  Claim C5. In every pool state that satisfies the pool invariant, \<open>releaseValues\<close>
  keeps exactly the strings whose key flag is set, in their order: a string that \<open>get\<close>
  found before and that is not a key is not found afterwards, a key string is found as the
  same object (same address, flags and bytes), a string that was absent stays absent, and
  the item count decreases by the number of strings that were not keys.
\<close>

theorem releaseValues_removes_exactly_values:
  assumes "pool_inv h p"
  shows "pool_strings (releaseValues p) = filter isKey (pool_strings p)
       \<and> mItemCount (releaseValues p) + length (filter (\<lambda>js. \<not> isKey js) (pool_strings p)) = mItemCount p
       \<and> (\<forall>str n js. get h p str n = Inr (Some js)
             \<longrightarrow> get h (releaseValues p) str n = Inr (if isKey js then Some js else None))
       \<and> (\<forall>str n. get h p str n = Inr None \<longrightarrow> get h (releaseValues p) str n = Inr None)"
proof -
  have "length (filter (\<lambda>js. \<not> isKey js) (pool_strings p)) \<le> mItemCount p"
    using assms by (simp add: pool_inv_def count_matches_def)
  then have c: "mItemCount (releaseValues p) + length (filter (\<lambda>js. \<not> isKey js) (pool_strings p)) = mItemCount p"
    by (simp add: releaseValues_eq)
  have g: "\<And>str n js. get h p str n = Inr (Some js)
             \<Longrightarrow> get h (releaseValues p) str n = Inr (if isKey js then Some js else None)"
    using get_bytes_releaseValues [OF assms] by (auto simp: get_def split: sum.splits)
  have g': "\<And>str n. get h p str n = Inr None \<Longrightarrow> get h (releaseValues p) str n = Inr None"
    using get_bytes_releaseValues [OF assms] by (auto simp: get_def split: sum.splits)
  from c g g' show ?thesis by (simp add: pool_strings_releaseValues)
qed

text \<open>
  Claim C6. The pool invariant consists of the three properties of the claim (every chain
  strictly increasing by length, then bytes; no byte string twice in the pool; the item
  count equal to the number of linked strings) and of the placement of every string in the
  bucket of its hash. It holds for a new pool (\<open>pool_inv_StringPool\<close>,
  \<open>pool_inv_StringPool_init\<close>), and from a state that satisfies it \<open>provide\<close>
  returns and re-establishes it, as do the rehash triggered by growth and
  \<open>releaseValues\<close>. \<open>get\<close> is a const member function: it returns no new state.
\<close>

theorem pool_operations_preserve_invariants:
  assumes "pool_inv h p"
  shows "chains_sorted p \<and> no_duplicates p \<and> count_matches p
       \<and> (\<forall>str own key n bytes. string_bytes str n = Inr bytes
             \<longrightarrow> (\<exists>r p'. provide h p str own key n = Inr (r, p') \<and> pool_inv h p'))
       \<and> (\<exists>p'. grow h p = Inr p' \<and> pool_inv h p')
       \<and> pool_inv h (releaseValues p)"
proof -
  have "\<exists>r p'. provide h p str own key n = Inr (r, p') \<and> pool_inv h p'"
    if "string_bytes str n = Inr bytes" for str own key n bytes
  proof -
    from provide_bytes_inv [OF assms, of bytes own key] obtain js found p' where
      "provide_bytes h p bytes own key = Inr ((js, found), p')" "pool_inv h p'" by blast
    with that show ?thesis by (simp add: provide_def)
  qed
  moreover have "\<exists>p'. grow h p = Inr p' \<and> pool_inv h p'"
    using grow_inv [OF assms] by blast
  moreover have "chains_sorted p \<and> no_duplicates p \<and> count_matches p"
    using assms by (simp add: pool_inv_def)
  ultimately show ?thesis
    using releaseValues_inv [OF assms] by blast
qed

lemma bytes_less_example: "bytes_less ''hello'' ''world!''"
  by (simp add: bytes_less_def)

lemma pool_inv_example: "pool_inv fnv1a_32_len example_pool"
  by (simp add: pool_inv_def example_pool_def chains_sorted_def no_duplicates_def count_matches_def
      well_placed_def pool_strings_def bytes_less_example fastMod_def)

theorem releaseValues_removes_exactly_values_witness:
  "pool_inv fnv1a_32_len example_pool
   \<and> get fnv1a_32_len example_pool ''hello'' (-1) = Inr (Some \<lparr>owns = False, isKey = False, c_str = ''hello'', addr = 1\<rparr>)
   \<and> get fnv1a_32_len (releaseValues example_pool) ''hello'' (-1) = Inr None
   \<and> get fnv1a_32_len example_pool ''world!'' (-1) = Inr (Some \<lparr>owns = True, isKey = True, c_str = ''world!'', addr = 2\<rparr>)
   \<and> get fnv1a_32_len (releaseValues example_pool) ''world!'' (-1) = Inr (Some \<lparr>owns = True, isKey = True, c_str = ''world!'', addr = 2\<rparr>)
   \<and> mItemCount (releaseValues example_pool) + 1 = mItemCount example_pool"
proof -
  have g1: "get fnv1a_32_len example_pool ''hello'' (-1) = Inr (Some \<lparr>owns = False, isKey = False, c_str = ''hello'', addr = 1\<rparr>)"
    by (simp add: get_def get_bytes_def string_bytes_def nul_byte_def example_pool_def mBucketCount_def fastMod_def
        compare_def len_def)
  have g2: "get fnv1a_32_len example_pool ''world!'' (-1) = Inr (Some \<lparr>owns = True, isKey = True, c_str = ''world!'', addr = 2\<rparr>)"
    by (simp add: get_def get_bytes_def string_bytes_def nul_byte_def example_pool_def mBucketCount_def fastMod_def
        compare_def len_def)
  have n: "length (filter (\<lambda>js. \<not> isKey js) (pool_strings example_pool)) = 1"
    by (simp add: pool_strings_def example_pool_def)
  from releaseValues_removes_exactly_values [OF pool_inv_example] g1 g2 n pool_inv_example
  show ?thesis by auto
qed

theorem pool_operations_preserve_invariants_witness:
  "pool_inv fnv1a_32_len example_pool
   \<and> string_bytes ''abc'' (-1) = Inr ''abc''
   \<and> chains_sorted example_pool \<and> no_duplicates example_pool \<and> count_matches example_pool
   \<and> (\<exists>r p'. provide fnv1a_32_len example_pool ''abc'' True True (-1) = Inr (r, p') \<and> pool_inv fnv1a_32_len p')
   \<and> pool_inv fnv1a_32_len (releaseValues example_pool)"
proof -
  have s: "string_bytes ''abc'' (-1) = Inr ''abc''"
    by (simp add: string_bytes_def nul_byte_def)
  from pool_operations_preserve_invariants [OF pool_inv_example] s pool_inv_example
  show ?thesis by blast
qed

section \<open>Properties of the editor\<close>

text \<open>
  Claim C9. On a cell of the matching container tag, each checked accessor, and its const
  variant, fails with \<open>std::out_of_range\<close> exactly when the index is not below
  the size, and returns the element at the index otherwise. The accessors are const
  member functions: they return a result and no new state.
\<close>

theorem checked_accessors:
  "(arrayValueAt (JArray es c) i = Inl OutOfRange \<longleftrightarrow> i \<ge> length es)
   \<and> (i < length es \<longrightarrow> arrayValueAt (JArray es c) i = Inr (es ! i))
   \<and> (arrayCValueAt (JArray es c) i = Inl OutOfRange \<longleftrightarrow> i \<ge> length es)
   \<and> (i < length es \<longrightarrow> arrayCValueAt (JArray es c) i = Inr (es ! i))
   \<and> (barrayValueAt (JBArray bs c) i = Inl OutOfRange \<longleftrightarrow> i \<ge> length bs)
   \<and> (i < length bs \<longrightarrow> barrayValueAt (JBArray bs c) i = Inr (bs ! i))
   \<and> (barrayCValueAt (JBArray bs c) i = Inl OutOfRange \<longleftrightarrow> i \<ge> length bs)
   \<and> (i < length bs \<longrightarrow> barrayCValueAt (JBArray bs c) i = Inr (bs ! i))
   \<and> (iarrayValueAt (JIArray ns c) i = Inl OutOfRange \<longleftrightarrow> i \<ge> length ns)
   \<and> (i < length ns \<longrightarrow> iarrayValueAt (JIArray ns c) i = Inr (ns ! i))
   \<and> (iarrayCValueAt (JIArray ns c) i = Inl OutOfRange \<longleftrightarrow> i \<ge> length ns)
   \<and> (i < length ns \<longrightarrow> iarrayCValueAt (JIArray ns c) i = Inr (ns ! i))
   \<and> (darrayValueAt (JDArray ds c) i = Inl OutOfRange \<longleftrightarrow> i \<ge> length ds)
   \<and> (i < length ds \<longrightarrow> darrayValueAt (JDArray ds c) i = Inr (ds ! i))
   \<and> (darrayCValueAt (JDArray ds c) i = Inl OutOfRange \<longleftrightarrow> i \<ge> length ds)
   \<and> (i < length ds \<longrightarrow> darrayCValueAt (JDArray ds c) i = Inr (ds ! i))
   \<and> (objectMemberAt (JObject ms c) i = Inl OutOfRange \<longleftrightarrow> i \<ge> length ms)
   \<and> (i < length ms \<longrightarrow> objectMemberAt (JObject ms c) i = Inr (ms ! i))
   \<and> (objectCMemberAt (JObject ms c) i = Inl OutOfRange \<longleftrightarrow> i \<ge> length ms)
   \<and> (i < length ms \<longrightarrow> objectCMemberAt (JObject ms c) i = Inr (ms ! i))"
  by (simp add: arrayValueAt_def arrayCValueAt_def barrayValueAt_def barrayCValueAt_def
      iarrayValueAt_def iarrayCValueAt_def darrayValueAt_def darrayCValueAt_def
      objectMemberAt_def objectCMemberAt_def)

theorem checked_accessors_witness:
  "arrayValueAt (JArray [JTrue, JInt64 7] 3) 1 = Inr (JInt64 7)
   \<and> arrayValueAt (JArray [JTrue, JInt64 7] 3) 2 = Inl OutOfRange
   \<and> barrayCValueAt (JBArray [True] 1) 0 = Inr True
   \<and> iarrayValueAt (JIArray [5] 1) 1 = Inl OutOfRange
   \<and> darrayValueAt (JDArray [] 0) 0 = Inl OutOfRange
   \<and> objectMemberAt (JObject [(16, JNul)] 1) 0 = Inr (16, JNul)
   \<and> objectCMemberAt (JObject [(16, JNul)] 1) 4 = Inl OutOfRange"
  using checked_accessors [where es = "[JTrue, JInt64 7]" and c = 3 and i = 1]
    checked_accessors [where es = "[JTrue, JInt64 7]" and c = 3 and i = 2]
    checked_accessors [where bs = "[True]" and c = 1 and i = 0]
    checked_accessors [where ns = "[5]" and c = 1 and i = 1]
    checked_accessors [where ds = "[]" and c = 0 and i = 0]
    checked_accessors [where ms = "[(16, JNul)]" and c = 1 and i = 0]
    checked_accessors [where ms = "[(16, JNul)]" and c = 1 and i = 4]
  by simp

lemma strlen_le: "strlen s \<le> length s"
  by (simp add: strlen_def length_takeWhile_le)

lemma nth_strlen: "strlen s < length s \<Longrightarrow> s ! strlen s = nul_byte"
  unfolding strlen_def using nth_length_takeWhile [of "\<lambda>c. c \<noteq> nul_byte" s] by simp

lemma nth_before_strlen: "k < strlen s \<Longrightarrow> s ! k \<noteq> nul_byte"
  unfolding strlen_def using takeWhile_nth [of k "\<lambda>c. c \<noteq> nul_byte" s] nth_mem [of k "takeWhile (\<lambda>c. c \<noteq> nul_byte) s"]
  by (metis (mono_tags, lifting) set_takeWhileD)

lemma minStringLength_from_eq:
  "k \<le> strlen s \<Longrightarrow> k \<le> ShortString_MaxSize \<Longrightarrow> minStringLength_from k s = min (strlen s) ShortString_MaxSize"
proof (induction k s rule: minStringLength_from.induct)
  case (1 minLen s)
  show ?case
  proof (cases "minLen < ShortString_MaxSize")
    case False
    with 1 show ?thesis by (subst minStringLength_from.simps) simp
  next
    case True
    show ?thesis
    proof (cases "minLen < strlen s")
      case lt: True
      then have "minLen < length s" using strlen_le [of s] by simp
      then have "(s @ [nul_byte]) ! min minLen (length s) \<noteq> nul_byte"
        using nth_before_strlen [OF lt] by (simp add: nth_append)
      with 1 True lt show ?thesis by (subst minStringLength_from.simps) simp
    next
      case False
      with 1 have eq: "minLen = strlen s" by simp
      have "(s @ [nul_byte]) ! min minLen (length s) = nul_byte"
      proof (cases "strlen s < length s")
        case True
        then show ?thesis using nth_strlen eq by (simp add: nth_append)
      next
        case False
        then have "strlen s = length s" using strlen_le [of s] by simp
        then show ?thesis using eq by (simp add: nth_append)
      qed
      with True eq show ?thesis by (subst minStringLength_from.simps) simp
    qed
  qed
qed

lemma minStringLength_eq: "minStringLength s = min (strlen s) ShortString_MaxSize"
  by (simp add: minStringLength_def minStringLength_from_eq)

lemma take_strlen: "take (strlen s) (s @ [nul_byte]) = takeWhile (\<lambda>c. c \<noteq> nul_byte) s"
proof -
  have "take (strlen s) (s @ [nul_byte]) = take (strlen s) s"
    using strlen_le [of s] by simp
  also have "\<dots> = takeWhile (\<lambda>c. c \<noteq> nul_byte) s"
    unfolding strlen_def by (rule takeWhile_eq_take [symmetric])
  finally show ?thesis .
qed

lemma string_bytes_scan: "string_bytes s (- 1) = Inr (takeWhile (\<lambda>c. c \<noteq> nul_byte) s)"
  by (simp add: string_bytes_def)

lemma string_bytes_length:
  assumes "string_bytes s n = Inr bytes"
  shows "length bytes = (if n \<ge> 0 then nat n else strlen s)"
  using assms by (auto simp: string_bytes_def strlen_def split: if_splits)

lemma string_bytes_minLen:
  assumes "string_bytes s n = Inr bytes" "length bytes < ShortString_MaxSize"
  shows "string_bytes s (int (if n \<ge> 0 then nat n else minStringLength s)) = Inr bytes"
proof (cases "n \<ge> 0")
  case True
  with assms show ?thesis by simp
next
  case False
  with assms have b: "bytes = takeWhile (\<lambda>c. c \<noteq> nul_byte) s" by (simp add: string_bytes_def)
  with assms(2) have "minStringLength s = strlen s" by (simp add: minStringLength_eq strlen_def)
  with False b show ?thesis using strlen_le [of s] take_strlen [of s] by (simp add: string_bytes_def)
qed

lemma store_string_short:
  assumes "string_bytes s n = Inr bytes" "length bytes < ShortString_MaxSize"
  shows "store_string h p s own (if n \<ge> 0 then nat n else minStringLength s) n = Inr (p, JShortString bytes)"
proof -
  have "(if n \<ge> 0 then nat n else minStringLength s) = length bytes"
    using string_bytes_length [OF assms(1)] assms(2)
    by (auto simp: minStringLength_eq)
  then show ?thesis
    using string_bytes_minLen [OF assms] assms(2) by (simp add: store_string_def)
qed

lemma store_string_long:
  assumes "pool_inv h p" "string_bytes s n = Inr bytes" "length bytes \<ge> ShortString_MaxSize"
  shows "\<exists>js found p'. provide h p s own False n = Inr ((js, found), p') \<and> c_str js = bytes
            \<and> js \<in> set (pool_strings p') \<and> pool_inv h p'
            \<and> mItemCount p' = (if found then mItemCount p else Suc (mItemCount p))
            \<and> (found \<longleftrightarrow> bytes \<in> c_str ` set (pool_strings p))
            \<and> store_string h p s own (if n \<ge> 0 then nat n else minStringLength s) n
                 = Inr (p', JLongString (addr js) (length bytes))"
proof -
  have m: "\<not> (if n \<ge> 0 then nat n else minStringLength s) < ShortString_MaxSize"
    using string_bytes_length [OF assms(2)] assms(3)
    by (auto simp: minStringLength_eq)
  from provide_bytes_inv [OF assms(1), of bytes own False] obtain js found p' where
    r: "provide_bytes h p bytes own False = Inr ((js, found), p')" "pool_inv h p'" "c_str js = bytes"
      "js \<in> set (pool_strings p')" "found \<longleftrightarrow> bytes \<in> c_str ` set (pool_strings p)"
      "found \<longrightarrow> mItemCount p' = mItemCount p" "\<not> found \<longrightarrow> mItemCount p' = Suc (mItemCount p)"
    by blast
  then have "provide h p s own False n = Inr ((js, found), p')"
    using assms(2) by (simp add: provide_def)
  with r m show ?thesis
    by (auto simp: store_string_def len_def)
qed


lemma bit_length_upper: "n < 2 ^ bit_length n"
proof (induction n rule: bit_length.induct)
  case (1 n)
  show ?case
  proof (cases "n = 0")
    case True
    then show ?thesis by (simp add: bit_length.simps [of 0])
  next
    case False
    with 1 have "n div 2 < 2 ^ bit_length (n div 2)" by simp
    then have "n < 2 * 2 ^ bit_length (n div 2)" by linarith
    with False show ?thesis by (simp add: bit_length.simps [of n])
  qed
qed

lemma round_sig24_bounds:
  "n \<le> round_sig24 n + n div 2 ^ 23 \<and> round_sig24 n \<le> n + n div 2 ^ 23"
proof (cases "n < 2 ^ 24")
  case True
  then show ?thesis by (simp add: round_sig24_def)
next
  case False
  let ?b = "bit_length n"
  let ?e = "?b - 24"
  have "(2::nat) ^ 24 < 2 ^ ?b" using False bit_length_upper [of n] by linarith
  then have b: "24 < ?b" by (rule power_less_imp_less_exp [rotated]) simp
  have n: "n > 0" using False by auto
  have "?e + 23 = ?b - 1" using b by simp
  then have "(2::nat) ^ ?e * 2 ^ 23 = 2 ^ (?b - 1)"
    by (simp only: flip: power_add)
  also have "\<dots> \<le> n" using n by (rule bit_length_pow)
  finally have e: "2 ^ ?e \<le> n div 2 ^ 23"
    by (simp add: less_eq_div_iff_mult_less_eq)
  define q where "q = n div 2 ^ ?e"
  define r where "r = n mod 2 ^ ?e"
  have dec: "n = q * 2 ^ ?e + r"
    unfolding q_def r_def by (rule div_mult_mod_eq [symmetric])
  have r: "r < 2 ^ ?e"
    unfolding r_def by simp
  have "round_sig24 n = q * 2 ^ ?e \<or> round_sig24 n = q * 2 ^ ?e + 2 ^ ?e"
    using False by (auto simp: round_sig24_def Let_def q_def r_def algebra_simps)
  with dec r e show ?thesis by linarith
qed

lemma ceil_times_1_5_bounds:
  assumes "0 < c" "c < 2 ^ 31"
  shows "c < ceil_times_1_5 c \<and> ceil_times_1_5 c < 2 ^ 32"
proof (cases "c < 2 ^ 22")
  case True
  then have "round_sig24 c = c" by (simp add: round_sig24_def)
  moreover have "round_sig24 (3 * c) = 3 * c" using True by (simp add: round_sig24_def)
  ultimately have "ceil_times_1_5 c = (3 * c + 1) div 2" by (simp add: ceil_times_1_5_def)
  moreover have "c < (3 * c + 1) div 2" using assms(1) by arith
  moreover have "(3 * c + 1) div 2 < 2 ^ 32" using True by simp
  ultimately show ?thesis by simp
next
  case False
  define d where "d = c div 2 ^ 23"
  define m where "m = round_sig24 c"
  define h where "h = round_sig24 (3 * m)"
  have dm: "c = d * 2 ^ 23 + c mod 2 ^ 23"
    unfolding d_def by (rule div_mult_mod_eq [symmetric])
  have "c mod 2 ^ 23 < 2 ^ 23" by simp
  with dm have d1: "d * 2 ^ 23 \<le> c" and d2: "c < d * 2 ^ 23 + 2 ^ 23"
    by linarith+
  have m: "c \<le> m + d" "m \<le> c + d"
    using round_sig24_bounds [of c] by (simp_all add: m_def d_def)
  define x where "x = (3 * m) div 2 ^ 23"
  have "3 * m < (3 * d + 4) * 2 ^ 23" using m d1 d2 assms by simp
  then have md: "x < 3 * d + 4" unfolding x_def by (rule less_mult_imp_div_less)
  have h: "3 * m \<le> h + x" "h \<le> 3 * m + x"
    using round_sig24_bounds [of "3 * m"] by (simp_all add: h_def x_def)
  have c: "ceil_times_1_5 c = (h + 1) div 2" by (simp add: ceil_times_1_5_def h_def m_def)
  have c22: "4194304 \<le> c" and c31: "c < 2147483648" using False assms by simp_all
  have d1': "d * 8388608 \<le> c" using d1 by simp
  have lo: "2 * c + 1 \<le> h" using c22 m md h d1' by linarith
  have hi: "h + 1 < 8589934592" using c31 m md h d1' by linarith
  from lo have "c < (h + 1) div 2" by linarith
  moreover from hi have "(h + 1) div 2 < 2 ^ 32" by simp
  ultimately show ?thesis unfolding c by simp
qed

lemma grown_capacity_gt:
  assumes "c < 2 ^ 31"
  shows "\<exists>c'. grown_capacity c = Inr c' \<and> c < c'"
  using ceil_times_1_5_bounds [OF _ assms] by (cases "c = 0") (auto simp: grown_capacity_def)

lemma arrayIncSize_spec:
  assumes "length es \<le> c" "c < 2 ^ 31"
  shows "\<exists>c'. arrayIncSize (JArray es c) = Inr (JArray (es @ [JNul]) c', length es) \<and> c \<le> c'"
proof (cases "length es = c")
  case True
  from grown_capacity_gt [OF assms(2)] obtain c' where "grown_capacity c = Inr c'" "c < c'" by blast
  with True show ?thesis by (auto simp: arrayIncSize_def arrayGrow_def)
next
  case False
  with assms show ?thesis by (auto simp: arrayIncSize_def)
qed

lemma objectIncSize_spec:
  assumes "pool_inv h p" "string_bytes key kn = Inr kbytes" "length ms \<le> c" "c < 2 ^ 31"
  shows "\<exists>k found p1 c'. provide h p key own True kn = Inr ((k, found), p1) \<and> pool_inv h p1 \<and> c_str k = kbytes
           \<and> objectIncSize h (p, JObject ms c) key own kn = Inr (p1, JObject (ms @ [(addr k, JNul)]) c', length ms)"
proof -
  from provide_bytes_inv [OF assms(1), of kbytes own True] obtain k found p1 where
    r: "provide_bytes h p kbytes own True = Inr ((k, found), p1)" "pool_inv h p1" "c_str k = kbytes"
    by blast
  then have pr: "provide h p key own True kn = Inr ((k, found), p1)"
    using assms(2) by (simp add: provide_def)
  show ?thesis
  proof (cases "length ms = c")
    case True
    from grown_capacity_gt [OF assms(4)] obtain c' where "grown_capacity c = Inr c'" "c < c'" by blast
    with True pr r show ?thesis by (auto simp: objectIncSize_def objectGrow_def)
  next
    case False
    with assms(3) pr r show ?thesis by (auto simp: objectIncSize_def)
  qed
qed


lemma assign_string_storage:
  assumes "pool_inv h p" and "string_bytes s (- 1) = Inr bytes"
  shows "if length bytes < ShortString_MaxSize
           then assign_string h (p, v) s own = Inr (p, JShortString bytes)
           else \<exists>js found p'. provide h p s own False (- 1) = Inr ((js, found), p') \<and> c_str js = bytes
                  \<and> js \<in> set (pool_strings p')
                  \<and> mItemCount p' = (if found then mItemCount p else Suc (mItemCount p))
                  \<and> (found \<longleftrightarrow> bytes \<in> c_str ` set (pool_strings p))
                  \<and> assign_string h (p, v) s own = Inr (p', JLongString (addr js) (length bytes))"
proof (cases "length bytes < ShortString_MaxSize")
  case True
  from store_string_short [OF assms(2) True, of h p own] True show ?thesis
    by (simp add: assign_string_def)
next
  case False
  then have "length bytes \<ge> ShortString_MaxSize" by simp
  from store_string_long [OF assms(1,2) this, of own] False show ?thesis
    by (auto simp: assign_string_def)
qed

lemma arrayPushBack_string_storage:
  assumes "pool_inv h p" and "string_bytes s n = Inr bytes" and "length es \<le> c" and "c < 2 ^ 31"
  shows "if length bytes < ShortString_MaxSize
           then \<exists>c'. arrayPushBack_string h (p, JArray es c) s own n
                        = Inr (p, JArray (es @ [JShortString bytes]) c')
           else \<exists>js found p' c'. provide h p s own False n = Inr ((js, found), p') \<and> c_str js = bytes
                  \<and> js \<in> set (pool_strings p')
                  \<and> mItemCount p' = (if found then mItemCount p else Suc (mItemCount p))
                  \<and> (found \<longleftrightarrow> bytes \<in> c_str ` set (pool_strings p))
                  \<and> arrayPushBack_string h (p, JArray es c) s own n
                        = Inr (p', JArray (es @ [JLongString (addr js) (length bytes)]) c')"
proof -
  from arrayIncSize_spec [OF assms(3,4)] obtain c' where
    inc: "arrayIncSize (JArray es c) = Inr (JArray (es @ [JNul]) c', length es)" by blast
  show ?thesis
  proof (cases "length bytes < ShortString_MaxSize")
    case True
    from store_string_short [OF assms(2) True, of h p own] inc True show ?thesis
      by (simp add: arrayPushBack_string_def Let_def)
  next
    case False
    then have "length bytes \<ge> ShortString_MaxSize" by simp
    from store_string_long [OF assms(1,2) this, of own] obtain js found p' where
      "provide h p s own False n = Inr ((js, found), p')" "c_str js = bytes" "js \<in> set (pool_strings p')"
      "mItemCount p' = (if found then mItemCount p else Suc (mItemCount p))"
      "found \<longleftrightarrow> bytes \<in> c_str ` set (pool_strings p)"
      "store_string h p s own (if n \<ge> 0 then nat n else minStringLength s) n
               = Inr (p', JLongString (addr js) (length bytes))" by blast
    with inc False show ?thesis
      by (simp add: arrayPushBack_string_def Let_def)
  qed
qed

lemma objectPushBack_string_storage:
  assumes "pool_inv h p" and "string_bytes s n = Inr bytes"
    and "length ms \<le> c" and "c < 2 ^ 31" and "string_bytes key kn = Inr kbytes"
  shows "\<exists>k kfound p1 c'. provide h p key ownKey True kn = Inr ((k, kfound), p1) \<and> c_str k = kbytes \<and>
            (if length bytes < ShortString_MaxSize
             then objectPushBack_string h (p, JObject ms c) key ownKey s own kn n
                        = Inr (p1, JObject (ms @ [(addr k, JShortString bytes)]) c')
             else \<exists>js found p2. provide h p1 s own False n = Inr ((js, found), p2) \<and> c_str js = bytes
                  \<and> js \<in> set (pool_strings p2)
                  \<and> mItemCount p2 = (if found then mItemCount p1 else Suc (mItemCount p1))
                  \<and> (found \<longleftrightarrow> bytes \<in> c_str ` set (pool_strings p1))
                  \<and> objectPushBack_string h (p, JObject ms c) key ownKey s own kn n
                        = Inr (p2, JObject (ms @ [(addr k, JLongString (addr js) (length bytes))]) c'))"
proof -
  from objectIncSize_spec [OF assms(1) assms(5) assms(3,4), of ownKey] obtain k kfound p1 c' where
    k: "provide h p key ownKey True kn = Inr ((k, kfound), p1)" "pool_inv h p1" "c_str k = kbytes"
       "objectIncSize h (p, JObject ms c) key ownKey kn = Inr (p1, JObject (ms @ [(addr k, JNul)]) c', length ms)"
    by blast
  have "if length bytes < ShortString_MaxSize
           then objectPushBack_string h (p, JObject ms c) key ownKey s own kn n
                      = Inr (p1, JObject (ms @ [(addr k, JShortString bytes)]) c')
           else \<exists>js found p2. provide h p1 s own False n = Inr ((js, found), p2) \<and> c_str js = bytes
                \<and> js \<in> set (pool_strings p2)
                \<and> mItemCount p2 = (if found then mItemCount p1 else Suc (mItemCount p1))
                \<and> (found \<longleftrightarrow> bytes \<in> c_str ` set (pool_strings p1))
                \<and> objectPushBack_string h (p, JObject ms c) key ownKey s own kn n
                      = Inr (p2, JObject (ms @ [(addr k, JLongString (addr js) (length bytes))]) c')"
  proof (cases "length bytes < ShortString_MaxSize")
    case True
    from store_string_short [OF assms(2) True, of h p1 own] k(4) True show ?thesis
      by (simp add: objectPushBack_string_def Let_def)
  next
    case False
    then have "length bytes \<ge> ShortString_MaxSize" by simp
    from store_string_long [OF k(2) assms(2) this, of own] obtain js found p2 where
      "provide h p1 s own False n = Inr ((js, found), p2)" "c_str js = bytes" "js \<in> set (pool_strings p2)"
      "mItemCount p2 = (if found then mItemCount p1 else Suc (mItemCount p1))"
      "found \<longleftrightarrow> bytes \<in> c_str ` set (pool_strings p1)"
      "store_string h p1 s own (if n \<ge> 0 then nat n else minStringLength s) n
               = Inr (p2, JLongString (addr js) (length bytes))" by blast
    with k(4) False show ?thesis
      by (simp add: objectPushBack_string_def Let_def)
  qed
  with k(1,3) show ?thesis by blast
qed

lemma getValue_loop_None: "getValue_loop ms i a = None \<longleftrightarrow> a \<notin> fst ` set ms"
  by (induction ms arbitrary: i) auto

lemma getValue_loop_Some:
  "getValue_loop ms i a = Some j \<Longrightarrow>
     i \<le> j \<and> j - i < length ms \<and> fst (ms ! (j - i)) = a \<and> (\<forall>k<j - i. fst (ms ! k) \<noteq> a)"
proof (induction ms arbitrary: i)
  case Nil
  then show ?case by simp
next
  case (Cons m ms)
  show ?case
  proof (cases "fst m = a")
    case True
    with Cons.prems show ?thesis by simp
  next
    case False
    with Cons.prems have "getValue_loop ms (Suc i) a = Some j" by simp
    from Cons.IH [OF this] have *: "Suc i \<le> j" "j - Suc i < length ms" "fst (ms ! (j - Suc i)) = a"
      "\<forall>k<j - Suc i. fst (ms ! k) \<noteq> a" by auto
    then have e: "j - i = Suc (j - Suc i)" by simp
    show ?thesis using * False unfolding e by (auto simp: nth_Cons split: nat.splits)
  qed
qed

lemma member_key_iff:
  assumes "distinct (map c_str (pool_strings p))" "distinct (map addr (pool_strings p))"
    and "x \<in> set (pool_strings p)"
  shows "member_key p m = Some (c_str x) \<longleftrightarrow> fst m = addr x"
proof
  assume "member_key p m = Some (c_str x)"
  then obtain y where y: "find (\<lambda>js. addr js = fst m) (pool_strings p) = Some y" "c_str y = c_str x"
    by (auto simp: member_key_def)
  from find_SomeD [OF y(1)] have "y \<in> set (pool_strings p)" "addr y = fst m" by auto
  with distinct_map_inj [OF assms(1) _ assms(3) y(2)] show "fst m = addr x" by simp
next
  assume "fst m = addr x"
  with find_unique [OF assms(2,3)] show "member_key p m = Some (c_str x)"
    by (simp add: member_key_def)
qed

lemma member_key_absent:
  assumes "s \<notin> c_str ` set (pool_strings p)"
  shows "member_key p m \<noteq> Some s"
proof
  assume "member_key p m = Some s"
  then obtain y where y: "find (\<lambda>js. addr js = fst m) (pool_strings p) = Some y" "c_str y = s"
    by (auto simp: member_key_def)
  from find_SomeD [OF y(1)] y(2) assms show False by auto
qed

lemma subscript_key_object:
  assumes inv: "pool_inv h p" and da: "distinct (map addr (pool_strings p))"
    and cap: "length ms \<le> c" "c < 2 ^ 31"
    and kb: "kb = takeWhile (\<lambda>c. c \<noteq> nul_byte) key"
  shows "\<exists>k found p'. provide h p key own True (- 1) = Inr ((k, found), p') \<and> c_str k = kb
            \<and> k \<in> set (pool_strings p') \<and> pool_inv h p'
            \<and> (\<forall>i<length ms. member_key p (ms ! i) = Some kb \<and> (\<forall>j<i. member_key p (ms ! j) \<noteq> Some kb)
                  \<longrightarrow> subscript_key h (p, JObject ms c) key own = Inr (p', JObject ms c, i))
            \<and> ((\<forall>i<length ms. member_key p (ms ! i) \<noteq> Some kb)
                  \<longrightarrow> (\<exists>c'. subscript_key h (p, JObject ms c) key own
                               = Inr (p', JObject (ms @ [(addr k, JNul)]) c', length ms)))"
proof -
  have sb: "string_bytes key (- 1) = Inr kb" by (simp add: kb string_bytes_scan)
  from provide_bytes_inv [OF inv, of kb own True] obtain k found p' where
    r: "provide_bytes h p kb own True = Inr ((k, found), p')" "pool_inv h p'" "c_str k = kb"
       "k \<in> set (pool_strings p')" "found \<longleftrightarrow> kb \<in> c_str ` set (pool_strings p)"
       "found \<longrightarrow> (\<exists>x\<in>set (pool_strings p). c_str x = kb \<and> k = updateIsKey x True)"
    by blast
  have pr: "provide h p key own True (- 1) = Inr ((k, found), p')"
    using r(1) sb by (simp add: provide_def)
  have dc: "distinct (map c_str (pool_strings p))" using inv by (simp add: pool_inv_def no_duplicates_def)
  have mk: "member_key p m = Some kb \<longleftrightarrow> found \<and> fst m = addr k" for m
  proof (cases found)
    case True
    with r(6) obtain x where x: "x \<in> set (pool_strings p)" "c_str x = kb" "k = updateIsKey x True" by blast
    have "addr k = addr x" by (simp add: x(3) updateIsKey_def)
    with member_key_iff [OF dc da x(1), of m] x(2) True show ?thesis by simp
  next
    case False
    with r(5) member_key_absent [of kb p m] show ?thesis by simp
  qed
  from grown_capacity_gt [OF cap(2)] obtain c2 where c2: "grown_capacity c = Inr c2" "c < c2" by blast
  have app: "\<exists>c'. subscript_key h (p, JObject ms c) key own
                               = Inr (p', JObject (ms @ [(addr k, JNul)]) c', length ms)"
    if "\<forall>i<length ms. member_key p (ms ! i) \<noteq> Some kb"
  proof -
    have g: "(if found then getValue (JObject ms c) (addr k) else Inr None) = Inr None"
    proof (cases found)
      case True
      with that mk have "\<forall>i<length ms. fst (ms ! i) \<noteq> addr k" by simp
      then have "addr k \<notin> fst ` set ms" by (force simp: in_set_conv_nth)
      then show ?thesis by (simp add: getValue_loop_None)
    qed simp
    show ?thesis
    proof (cases "length ms = c")
      case True
      with g pr c2 show ?thesis
        by (simp add: subscript_key_def Let_def objectGrow_def isNul_def)
    next
      case False
      with g pr cap(1) show ?thesis
        by (simp add: subscript_key_def Let_def isNul_def)
    qed
  qed
  have ex: "subscript_key h (p, JObject ms c) key own = Inr (p', JObject ms c, i)"
    if "i < length ms" "member_key p (ms ! i) = Some kb" "\<forall>j<i. member_key p (ms ! j) \<noteq> Some kb" for i
  proof -
    from that(2) mk have f: found and a: "fst (ms ! i) = addr k" by auto
    from that(3) mk f have b: "\<forall>j<i. fst (ms ! j) \<noteq> addr k" by simp
    from a that(1) have "addr k \<in> fst ` set ms" by (metis image_eqI nth_mem)
    then obtain j where j: "getValue_loop ms 0 (addr k) = Some j"
      using getValue_loop_None [of ms 0 "addr k"] by (cases "getValue_loop ms 0 (addr k)") auto
    from getValue_loop_Some [OF j] have j2: "j < length ms" "fst (ms ! j) = addr k" "\<forall>k'<j. fst (ms ! k') \<noteq> addr k"
      by auto
    have "j = i" using j2 a b that(1) by (meson nat_neq_iff)
    with j f pr show ?thesis by (simp add: subscript_key_def Let_def isNul_def)
  qed
  from pr r(2,3,4) app ex show ?thesis by blast
qed

lemma subscript_key_null:
  "subscript_key h (p, JNul) key own = subscript_key h (p, JObject [] 0) key own"
  by (simp add: subscript_key_def isNul_def)

lemma subscript_index_null:
  "subscript_index JNul index = subscript_index (JArray [] 0) index"
  by (simp add: subscript_index_def isNul_def)

lemma subscript_index_array:
  assumes "length es \<le> c" "c < 2 ^ 31" "0 \<le> index"
  shows "index = int (length es) \<longrightarrow>
           (\<exists>c'. subscript_index (JArray es c) index = Inr (JArray (es @ [JNul]) c', length es))"
    and "index < int (length es) \<longrightarrow>
           subscript_index (JArray es c) index = Inr (JArray es c, nat index)"
proof -
  from assms have lt: "length es < 2 ^ 32" by simp
  from grown_capacity_gt [OF assms(2)] obtain c2 where c2: "grown_capacity c = Inr c2" "c < c2" by blast
  show "index = int (length es) \<longrightarrow>
           (\<exists>c'. subscript_index (JArray es c) index = Inr (JArray (es @ [JNul]) c', length es))"
  proof
    assume i: "index = int (length es)"
    have m: "nat (index mod 2 ^ 32) = length es" using lt i by (simp add: nat_mod_distrib)
    show "\<exists>c'. subscript_index (JArray es c) index = Inr (JArray (es @ [JNul]) c', length es)"
    proof (cases "length es = c")
      case True
      with m c2 show ?thesis by (simp add: subscript_index_def Let_def arrayGrow_def isNul_def)
    next
      case False
      with m assms(1) show ?thesis by (simp add: subscript_index_def Let_def isNul_def)
    qed
  qed
  show "index < int (length es) \<longrightarrow>
           subscript_index (JArray es c) index = Inr (JArray es c, nat index)"
  proof
    assume i: "index < int (length es)"
    from lt have "int (length es) < 4294967296" by simp
    with i have "index < 2 ^ 32" by simp
    with assms(3) have m: "nat (index mod 2 ^ 32) = nat index" by simp
    with i assms(3) show "subscript_index (JArray es c) index = Inr (JArray es c, nat index)"
      by (auto simp: subscript_index_def Let_def isNul_def)
  qed
qed

text \<open>
  Claim C1 (corrected). The claimed limit of 14 is one too low: \<open>ShortString::MaxSize\<close>
  is \<open>sizeof(Number) - 1 = 15\<close> on a 64-bit target and the editor tests
  \<open>minLen < ShortString_MaxSize\<close>, so the 14-character string
  \<open>"abcdefghijklmn"\<close> is stored inline with tag ShortString and the pool is left as
  it was.
\<close>

theorem fourteen_characters_counterexample:
  "assign_string fnv1a_32_len (StringPool page_base, JNul) ''abcdefghijklmn'' False
     = Inr (StringPool page_base, JShortString ''abcdefghijklmn'')"
  by (simp add: assign_string_def store_string_def minStringLength_eq strlen_def nul_byte_def
      ShortString_MaxSize_def sizeof_Number_def string_bytes_def)

text \<open>
  Claim C1 (amended). For every string given to the editor (\<open>operator=\<close>,
  \<open>arrayPushBack\<close>, \<open>objectPushBack\<close>) on a 64-bit target, with \<open>bytes\<close> the
  characters that the length argument selects (all characters before the first NUL for
  \<open>-1\<close>): a string of fewer than 15 characters is stored inline with tag ShortString and
  the pool is not touched by the value; a string of 15 or more characters is provided to the
  pool as a value string and stored with tag LongString, referring to the pooled string, and
  the item count grows by one exactly when the pool did not hold these bytes yet.
\<close>

theorem editor_string_storage:
  assumes "pool_inv h p" and "string_bytes s n = Inr bytes"
    and "length es \<le> c" and "length ms \<le> c" and "c < 2 ^ 31"
    and "string_bytes key kn = Inr kbytes"
  shows "ShortString_MaxSize = 15
    \<and> (n = - 1 \<longrightarrow>
          (if length bytes < ShortString_MaxSize
           then assign_string h (p, v) s own = Inr (p, JShortString bytes)
           else \<exists>js found p'. provide h p s own False (- 1) = Inr ((js, found), p') \<and> c_str js = bytes
                  \<and> js \<in> set (pool_strings p')
                  \<and> mItemCount p' = (if found then mItemCount p else Suc (mItemCount p))
                  \<and> (found \<longleftrightarrow> bytes \<in> c_str ` set (pool_strings p))
                  \<and> assign_string h (p, v) s own = Inr (p', JLongString (addr js) (length bytes))))
    \<and> (if length bytes < ShortString_MaxSize
           then \<exists>c'. arrayPushBack_string h (p, JArray es c) s own n
                        = Inr (p, JArray (es @ [JShortString bytes]) c')
           else \<exists>js found p' c'. provide h p s own False n = Inr ((js, found), p') \<and> c_str js = bytes
                  \<and> js \<in> set (pool_strings p')
                  \<and> mItemCount p' = (if found then mItemCount p else Suc (mItemCount p))
                  \<and> (found \<longleftrightarrow> bytes \<in> c_str ` set (pool_strings p))
                  \<and> arrayPushBack_string h (p, JArray es c) s own n
                        = Inr (p', JArray (es @ [JLongString (addr js) (length bytes)]) c'))
    \<and> (\<exists>k kfound p1 c'. provide h p key ownKey True kn = Inr ((k, kfound), p1) \<and> c_str k = kbytes \<and>
            (if length bytes < ShortString_MaxSize
             then objectPushBack_string h (p, JObject ms c) key ownKey s own kn n
                        = Inr (p1, JObject (ms @ [(addr k, JShortString bytes)]) c')
             else \<exists>js found p2. provide h p1 s own False n = Inr ((js, found), p2) \<and> c_str js = bytes
                  \<and> js \<in> set (pool_strings p2)
                  \<and> mItemCount p2 = (if found then mItemCount p1 else Suc (mItemCount p1))
                  \<and> (found \<longleftrightarrow> bytes \<in> c_str ` set (pool_strings p1))
                  \<and> objectPushBack_string h (p, JObject ms c) key ownKey s own kn n
                        = Inr (p2, JObject (ms @ [(addr k, JLongString (addr js) (length bytes))]) c')))"
proof (intro conjI impI)
  show "ShortString_MaxSize = 15" by (simp add: ShortString_MaxSize_def sizeof_Number_def)
next
  assume "n = - 1"
  with assms(2) have "string_bytes s (- 1) = Inr bytes" by simp
  from assign_string_storage [OF assms(1) this]
  show "if length bytes < ShortString_MaxSize
           then assign_string h (p, v) s own = Inr (p, JShortString bytes)
           else \<exists>js found p'. provide h p s own False (- 1) = Inr ((js, found), p') \<and> c_str js = bytes
                  \<and> js \<in> set (pool_strings p')
                  \<and> mItemCount p' = (if found then mItemCount p else Suc (mItemCount p))
                  \<and> (found \<longleftrightarrow> bytes \<in> c_str ` set (pool_strings p))
                  \<and> assign_string h (p, v) s own = Inr (p', JLongString (addr js) (length bytes))" .
next
  show "if length bytes < ShortString_MaxSize
           then \<exists>c'. arrayPushBack_string h (p, JArray es c) s own n
                        = Inr (p, JArray (es @ [JShortString bytes]) c')
           else \<exists>js found p' c'. provide h p s own False n = Inr ((js, found), p') \<and> c_str js = bytes
                  \<and> js \<in> set (pool_strings p')
                  \<and> mItemCount p' = (if found then mItemCount p else Suc (mItemCount p))
                  \<and> (found \<longleftrightarrow> bytes \<in> c_str ` set (pool_strings p))
                  \<and> arrayPushBack_string h (p, JArray es c) s own n
                        = Inr (p', JArray (es @ [JLongString (addr js) (length bytes)]) c')"
    by (rule arrayPushBack_string_storage [OF assms(1,2,3,5)])
next
  show "\<exists>k kfound p1 c'. provide h p key ownKey True kn = Inr ((k, kfound), p1) \<and> c_str k = kbytes \<and>
            (if length bytes < ShortString_MaxSize
             then objectPushBack_string h (p, JObject ms c) key ownKey s own kn n
                        = Inr (p1, JObject (ms @ [(addr k, JShortString bytes)]) c')
             else \<exists>js found p2. provide h p1 s own False n = Inr ((js, found), p2) \<and> c_str js = bytes
                  \<and> js \<in> set (pool_strings p2)
                  \<and> mItemCount p2 = (if found then mItemCount p1 else Suc (mItemCount p1))
                  \<and> (found \<longleftrightarrow> bytes \<in> c_str ` set (pool_strings p1))
                  \<and> objectPushBack_string h (p, JObject ms c) key ownKey s own kn n
                        = Inr (p2, JObject (ms @ [(addr k, JLongString (addr js) (length bytes))]) c'))"
    by (rule objectPushBack_string_storage [OF assms(1,2,4,5,6)])
qed

theorem editor_string_storage_witness:
  "pool_inv fnv1a_32_len (StringPool page_base)
   \<and> string_bytes ''abcdefghijklmno'' (- 1) = Inr ''abcdefghijklmno''
   \<and> string_bytes ''k'' (- 1) = Inr ''k''
   \<and> (\<exists>js p'. assign_string fnv1a_32_len (StringPool page_base, JNul) ''abcdefghijklmno'' False
                 = Inr (p', JLongString (addr js) (length ''abcdefghijklmno''))
               \<and> c_str js = ''abcdefghijklmno'' \<and> js \<in> set (pool_strings p'))
   \<and> (\<exists>(js :: jstring) p' c'. arrayPushBack_string fnv1a_32_len (StringPool page_base, JArray [] 0) ''abcdefghijklmno'' False (- 1)
                 = Inr (p', JArray ([] @ [JLongString (addr js) (length ''abcdefghijklmno'')]) c')
               \<and> c_str js = ''abcdefghijklmno'')
   \<and> (\<exists>(k :: jstring) (js :: jstring) p' c'. objectPushBack_string fnv1a_32_len (StringPool page_base, JObject [] 0) ''k'' False
                    ''abcdefghijklmno'' False (- 1) (- 1)
                 = Inr (p', JObject ([] @ [(addr k, JLongString (addr js) (length ''abcdefghijklmno''))]) c')
               \<and> c_str k = ''k'' \<and> c_str js = ''abcdefghijklmno'')"
proof -
  have h1: "pool_inv fnv1a_32_len (StringPool page_base)" by (rule pool_inv_StringPool)
  have h2: "string_bytes ''abcdefghijklmno'' (- 1) = Inr ''abcdefghijklmno''"
    by (simp add: string_bytes_def nul_byte_def)
  have h3: "string_bytes ''k'' (- 1) = Inr ''k''"
    by (simp add: string_bytes_def nul_byte_def)
  have h4: "length ([] :: jvalue list) \<le> 0" "length ([] :: (nat \<times> jvalue) list) \<le> 0" "(0 :: nat) < 2 ^ 31"
    by simp_all
  have l: "(length ''abcdefghijklmno'' < ShortString_MaxSize) = False"
    by (simp add: ShortString_MaxSize_def sizeof_Number_def)
  note t = editor_string_storage [OF h1 h2 h4(1) h4(2) h4(3) h3, of JNul False False, unfolded l if_False]
  note ta = t [THEN conjunct2, THEN conjunct1, rule_format, OF refl]
  note tb = t [THEN conjunct2, THEN conjunct2, THEN conjunct1]
  note tc = t [THEN conjunct2, THEN conjunct2, THEN conjunct2]
  from ta have a: "\<exists>js p'. assign_string fnv1a_32_len (StringPool page_base, JNul) ''abcdefghijklmno'' False
                 = Inr (p', JLongString (addr js) (length ''abcdefghijklmno''))
               \<and> c_str js = ''abcdefghijklmno'' \<and> js \<in> set (pool_strings p')"
    by (elim exE conjE, intro exI conjI) assumption+
  from tb have b: "\<exists>(js :: jstring) p' c'. arrayPushBack_string fnv1a_32_len (StringPool page_base, JArray [] 0) ''abcdefghijklmno'' False (- 1)
                 = Inr (p', JArray ([] @ [JLongString (addr js) (length ''abcdefghijklmno'')]) c')
               \<and> c_str js = ''abcdefghijklmno''"
    by (elim exE conjE, intro exI conjI) assumption+
  from tc have c: "\<exists>(k :: jstring) (js :: jstring) p' c'. objectPushBack_string fnv1a_32_len (StringPool page_base, JObject [] 0) ''k'' False
                    ''abcdefghijklmno'' False (- 1) (- 1)
                 = Inr (p', JObject ([] @ [(addr k, JLongString (addr js) (length ''abcdefghijklmno''))]) c')
               \<and> c_str k = ''k'' \<and> c_str js = ''abcdefghijklmno''"
    by (elim exE conjE, intro exI conjI) assumption+
  from h1 h2 h3 a b c show ?thesis by (intro conjI)
qed

text \<open>
  Claim C4. \<open>operator[](key)\<close> on a Null cell behaves as on an empty Object (the cell
  is retagged first). On an Object, with \<open>kb\<close> the bytes of the key: when a member's key
  is the pooled string \<open>kb\<close>, the first such member's value slot is returned and the
  object is returned as it was; when no member has that key, exactly one member is
  appended, its key the pooled string \<open>kb\<close> and its value Null, and its slot is returned.
  \<open>operator[](index)\<close> on a Null cell behaves as on an empty Array; on an Array, an
  index equal to the size appends exactly one Null element and an index below the size
  returns that element's slot and leaves the array as it was. (The capacity stays below
  \<open>2^31\<close> so that the growth by 1.5 fits \<open>uint32_t\<close>; distinct pooled strings live at
  distinct addresses.)
\<close>

theorem subscript_upsert:
  assumes "pool_inv h p" and "distinct (map addr (pool_strings p))"
    and "length ms \<le> c" and "length es \<le> c" and "c < 2 ^ 31"
    and "kb = takeWhile (\<lambda>c. c \<noteq> nul_byte) key"
  shows "subscript_key h (p, JNul) key own = subscript_key h (p, JObject [] 0) key own
    \<and> (\<exists>k found p'. provide h p key own True (- 1) = Inr ((k, found), p') \<and> c_str k = kb
            \<and> k \<in> set (pool_strings p') \<and> pool_inv h p'
            \<and> (\<forall>i<length ms. member_key p (ms ! i) = Some kb \<and> (\<forall>j<i. member_key p (ms ! j) \<noteq> Some kb)
                  \<longrightarrow> subscript_key h (p, JObject ms c) key own = Inr (p', JObject ms c, i))
            \<and> ((\<forall>i<length ms. member_key p (ms ! i) \<noteq> Some kb)
                  \<longrightarrow> (\<exists>c'. subscript_key h (p, JObject ms c) key own
                               = Inr (p', JObject (ms @ [(addr k, JNul)]) c', length ms))))
    \<and> subscript_index JNul index = subscript_index (JArray [] 0) index
    \<and> (index = int (length es) \<longrightarrow>
           (\<exists>c'. subscript_index (JArray es c) index = Inr (JArray (es @ [JNul]) c', length es)))
    \<and> (0 \<le> index \<and> index < int (length es) \<longrightarrow>
           subscript_index (JArray es c) index = Inr (JArray es c, nat index))"
proof (intro conjI)
  show "subscript_key h (p, JNul) key own = subscript_key h (p, JObject [] 0) key own"
    by (rule subscript_key_null)
  show "\<exists>k found p'. provide h p key own True (- 1) = Inr ((k, found), p') \<and> c_str k = kb
            \<and> k \<in> set (pool_strings p') \<and> pool_inv h p'
            \<and> (\<forall>i<length ms. member_key p (ms ! i) = Some kb \<and> (\<forall>j<i. member_key p (ms ! j) \<noteq> Some kb)
                  \<longrightarrow> subscript_key h (p, JObject ms c) key own = Inr (p', JObject ms c, i))
            \<and> ((\<forall>i<length ms. member_key p (ms ! i) \<noteq> Some kb)
                  \<longrightarrow> (\<exists>c'. subscript_key h (p, JObject ms c) key own
                               = Inr (p', JObject (ms @ [(addr k, JNul)]) c', length ms)))"
    by (rule subscript_key_object [OF assms(1,2,3,5,6)])
  show "subscript_index JNul index = subscript_index (JArray [] 0) index"
    by (rule subscript_index_null)
  show "index = int (length es) \<longrightarrow>
           (\<exists>c'. subscript_index (JArray es c) index = Inr (JArray (es @ [JNul]) c', length es))"
  proof
    assume i: "index = int (length es)"
    then have "0 \<le> index" by simp
    from subscript_index_array(1) [OF assms(4,5) this] i
    show "\<exists>c'. subscript_index (JArray es c) index = Inr (JArray (es @ [JNul]) c', length es)" by simp
  qed
  show "0 \<le> index \<and> index < int (length es) \<longrightarrow>
           subscript_index (JArray es c) index = Inr (JArray es c, nat index)"
    using subscript_index_array(2) [OF assms(4,5)] by simp
qed

theorem subscript_upsert_witness:
  "pool_inv fnv1a_32_len example_pool \<and> distinct (map addr (pool_strings example_pool))
   \<and> member_key example_pool (2, JTrue) = Some ''world!''
   \<and> (\<exists>p'. subscript_key fnv1a_32_len (example_pool, JObject [(2, JTrue)] 1) ''world!'' False
              = Inr (p', JObject [(2, JTrue)] 1, 0))
   \<and> (\<exists>(k :: jstring) p' c'. subscript_key fnv1a_32_len (example_pool, JObject [(2, JTrue)] 1) ''hello'' False
              = Inr (p', JObject ([(2, JTrue)] @ [(addr k, JNul)]) c', length [(2 :: nat, JTrue)])
                \<and> c_str k = ''hello'')
   \<and> (\<exists>c'. subscript_index (JArray [JTrue] 1) 1 = Inr (JArray ([JTrue] @ [JNul]) c', length [JTrue]))
   \<and> subscript_index (JArray [JTrue] 1) 0 = Inr (JArray [JTrue] 1, nat 0)"
proof -
  have h1: "pool_inv fnv1a_32_len example_pool" by (rule pool_inv_example)
  have h2: "distinct (map addr (pool_strings example_pool))"
    by (simp add: pool_strings_def example_pool_def)
  have h3: "length [(2 :: nat, JTrue)] \<le> 1" "length [JTrue] \<le> 1" "(1 :: nat) < 2 ^ 31" by simp_all
  have k1: "''world!'' = takeWhile (\<lambda>c. c \<noteq> nul_byte) ''world!''" by (simp add: nul_byte_def)
  have k2: "''hello'' = takeWhile (\<lambda>c. c \<noteq> nul_byte) ''hello''" by (simp add: nul_byte_def)
  have m1: "member_key example_pool (2, JTrue) = Some ''world!''"
    by (simp add: member_key_def pool_strings_def example_pool_def)
  have m2: "member_key example_pool (2, JTrue) \<noteq> Some ''hello''"
    by (simp add: member_key_def pool_strings_def example_pool_def)
  have f1: "0 < length [(2 :: nat, JTrue)] \<and> member_key example_pool ([(2, JTrue)] ! 0) = Some ''world!''
            \<and> (\<forall>j<0. member_key example_pool ([(2, JTrue)] ! j) \<noteq> Some ''world!'')"
    using m1 by simp
  have f2: "\<forall>i<length [(2 :: nat, JTrue)]. member_key example_pool ([(2, JTrue)] ! i) \<noteq> Some ''hello''"
    using m2 by simp
  have i1: "(1 :: int) = int (length [JTrue])" and i0: "(0 :: int) \<le> 0 \<and> 0 < int (length [JTrue])" by simp_all
  note t1 = subscript_upsert [OF h1 h2 h3 k1, of False 0]
  note t2 = subscript_upsert [OF h1 h2 h3 k2, of False 1]
  from t1 f1 have a: "\<exists>p'. subscript_key fnv1a_32_len (example_pool, JObject [(2, JTrue)] 1) ''world!'' False
              = Inr (p', JObject [(2, JTrue)] 1, 0)"
    by blast
  from t1 i0 have d: "subscript_index (JArray [JTrue] 1) 0 = Inr (JArray [JTrue] 1, nat 0)"
    by blast
  from t2 f2 have b: "\<exists>(k :: jstring) p' c'. subscript_key fnv1a_32_len (example_pool, JObject [(2, JTrue)] 1) ''hello'' False
              = Inr (p', JObject ([(2, JTrue)] @ [(addr k, JNul)]) c', length [(2 :: nat, JTrue)])
                \<and> c_str k = ''hello''"
    by blast
  from t2 i1 have c: "\<exists>c'. subscript_index (JArray [JTrue] 1) 1 = Inr (JArray ([JTrue] @ [JNul]) c', length [JTrue])"
    by blast
  from h1 h2 m1 a b c d show ?thesis by blast
qed

section \<open>Properties of the parsing handler\<close>

text \<open>Stores and loads on byte memories.\<close>

lemma unat_byte: "unat (word_of_nat (n mod 256) :: 8 word) = n mod 256"
  by (simp add: unat_of_nat)

lemma bytes_sum8:
  fixes x :: nat
  assumes "x < 2 ^ 64"
  shows "x mod 256 + 256 * (x div 256 mod 256 + 256 * (x div 65536 mod 256 + 256 * (x div 16777216 mod 256
       + 256 * (x div 4294967296 mod 256 + 256 * (x div 1099511627776 mod 256
       + 256 * (x div 281474976710656 mod 256 + 256 * (x div 72057594037927936 mod 256))))))) = x"
proof -
  define y1 where "y1 = x div 256"
  define y2 where "y2 = y1 div 256"
  define y3 where "y3 = y2 div 256"
  define y4 where "y4 = y3 div 256"
  define y5 where "y5 = y4 div 256"
  define y6 where "y6 = y5 div 256"
  define y7 where "y7 = y6 div 256"
  have d: "x div 65536 = y2" "x div 16777216 = y3" "x div 4294967296 = y4" "x div 1099511627776 = y5"
    "x div 281474976710656 = y6" "x div 72057594037927936 = y7"
    by (simp_all add: y1_def y2_def y3_def y4_def y5_def y6_def y7_def div_mult2_eq [symmetric])
  have s: "x = x mod 256 + 256 * y1" "y1 = y1 mod 256 + 256 * y2" "y2 = y2 mod 256 + 256 * y3"
    "y3 = y3 mod 256 + 256 * y4" "y4 = y4 mod 256 + 256 * y5" "y5 = y5 mod 256 + 256 * y6"
    "y6 = y6 mod 256 + 256 * y7"
    by (simp_all add: y1_def y2_def y3_def y4_def y5_def y6_def y7_def)
  have "y7 < 256" using assms d(6) by (simp add: less_mult_imp_div_less flip: d(6))
  then have y7: "y7 mod 256 = y7" by simp
  define b0 where "b0 = x mod 256"
  define b1 where "b1 = y1 mod 256"
  define b2 where "b2 = y2 mod 256"
  define b3 where "b3 = y3 mod 256"
  define b4 where "b4 = y4 mod 256"
  define b5 where "b5 = y5 mod 256"
  define b6 where "b6 = y6 mod 256"
  have "b0 + 256 * (b1 + 256 * (b2 + 256 * (b3 + 256 * (b4 + 256 * (b5 + 256 * (b6 + 256 * y7)))))) = x"
  proof -
    note s' = s [folded b0_def b1_def b2_def b3_def b4_def b5_def b6_def]
    have "b6 + 256 * y7 = y6" using s'(7) by simp
    then have "b5 + 256 * (b6 + 256 * y7) = y5" using s'(6) by simp
    then have "b4 + 256 * (b5 + 256 * (b6 + 256 * y7)) = y4" using s'(5) by simp
    then have "b3 + 256 * (b4 + 256 * (b5 + 256 * (b6 + 256 * y7))) = y3" using s'(4) by simp
    then have "b2 + 256 * (b3 + 256 * (b4 + 256 * (b5 + 256 * (b6 + 256 * y7)))) = y2" using s'(3) by simp
    then have "b1 + 256 * (b2 + 256 * (b3 + 256 * (b4 + 256 * (b5 + 256 * (b6 + 256 * y7))))) = y1"
      using s'(2) by simp
    then show ?thesis using s'(1) by simp
  qed
  then show ?thesis
    unfolding d y7 b0_def b1_def b2_def b3_def b4_def b5_def b6_def y1_def [symmetric] .
qed

lemma load_store_u64 [simp]: "load_u64 (store_u64 m a v) a = v"
proof -
  let ?m = "store_u64 m a v"
  have b: "unat (?m a) = unat v mod 256" "unat (?m (a + 1)) = unat v div 256 mod 256"
    "unat (?m (a + 2)) = unat v div 65536 mod 256" "unat (?m (a + 3)) = unat v div 16777216 mod 256"
    "unat (?m (a + 4)) = unat v div 4294967296 mod 256" "unat (?m (a + 5)) = unat v div 1099511627776 mod 256"
    "unat (?m (a + 6)) = unat v div 281474976710656 mod 256"
    "unat (?m (a + 7)) = unat v div 72057594037927936 mod 256"
    by (simp_all add: store_u64_def unat_of_nat)
  have "unat v < 2 ^ 64" using unsigned_less [of v] by simp
  from bytes_sum8 [OF this] have "load_u64 ?m a = of_nat (unat v)"
    unfolding load_u64_def b by (simp only:)
  then show ?thesis by simp
qed

lemma bytes_sum4:
  fixes x :: nat
  assumes "x < 2 ^ 32"
  shows "x mod 256 + 256 * (x div 256 mod 256 + 256 * (x div 65536 mod 256 + 256 * (x div 16777216 mod 256))) = x"
proof -
  define y1 where "y1 = x div 256"
  define y2 where "y2 = y1 div 256"
  define y3 where "y3 = y2 div 256"
  have d: "x div 65536 = y2" "x div 16777216 = y3"
    by (simp_all add: y1_def y2_def y3_def div_mult2_eq [symmetric])
  have s: "x = x mod 256 + 256 * y1" "y1 = y1 mod 256 + 256 * y2" "y2 = y2 mod 256 + 256 * y3"
    by (simp_all add: y1_def y2_def y3_def)
  have "y3 < 256" using assms by (simp add: less_mult_imp_div_less flip: d(2))
  then have y3: "y3 mod 256 = y3" by simp
  define b0 where "b0 = x mod 256"
  define b1 where "b1 = y1 mod 256"
  define b2 where "b2 = y2 mod 256"
  have "b0 + 256 * (b1 + 256 * (b2 + 256 * y3)) = x"
  proof -
    note s' = s [folded b0_def b1_def b2_def]
    have "b2 + 256 * y3 = y2" using s'(3) by simp
    then have "b1 + 256 * (b2 + 256 * y3) = y1" using s'(2) by simp
    then show ?thesis using s'(1) by simp
  qed
  then show ?thesis
    unfolding d y3 b0_def b1_def b2_def y1_def [symmetric] .
qed

lemma load_store_u32 [simp]: "load_u32 (store_u32 m a v) a = v"
proof -
  let ?m = "store_u32 m a v"
  have b: "unat (?m a) = unat v mod 256" "unat (?m (a + 1)) = unat v div 256 mod 256"
    "unat (?m (a + 2)) = unat v div 65536 mod 256" "unat (?m (a + 3)) = unat v div 16777216 mod 256"
    by (simp_all add: store_u32_def unat_of_nat)
  have "unat v < 2 ^ 32" using unsigned_less [of v] by simp
  from bytes_sum4 [OF this] have "load_u32 ?m a = of_nat (unat v)"
    unfolding load_u32_def b by (simp only:)
  then show ?thesis by simp
qed

lemma store_u64_other [simp]: "i < a \<or> a + 8 \<le> i \<Longrightarrow> store_u64 m a v i = m i"
  by (auto simp: store_u64_def)

lemma store_u32_other [simp]: "i < a \<or> a + 4 \<le> i \<Longrightarrow> store_u32 m a v i = m i"
  by (auto simp: store_u32_def)

lemma store_u16_other [simp]: "i < a \<or> a + 2 \<le> i \<Longrightarrow> store_u16 m a v i = m i"
  by (auto simp: store_u16_def)

lemma load_u64_cong: "(\<And>k. k < 8 \<Longrightarrow> m (a + k) = m' (a' + k)) \<Longrightarrow> load_u64 m a = load_u64 m' a'"
proof -
  assume h: "\<And>k. k < 8 \<Longrightarrow> m (a + k) = m' (a' + k)"
  have "m a = m' a'" using h [of 0] by simp
  moreover have "m (a + 1) = m' (a' + 1)" "m (a + 2) = m' (a' + 2)" "m (a + 3) = m' (a' + 3)"
    "m (a + 4) = m' (a' + 4)" "m (a + 5) = m' (a' + 5)" "m (a + 6) = m' (a' + 6)" "m (a + 7) = m' (a' + 7)"
    using h [of 1] h [of 2] h [of 3] h [of 4] h [of 5] h [of 6] h [of 7] by simp_all
  ultimately show ?thesis by (simp add: load_u64_def)
qed

lemma load_u32_cong: "(\<And>k. k < 4 \<Longrightarrow> m (a + k) = m' (a' + k)) \<Longrightarrow> load_u32 m a = load_u32 m' a'"
proof -
  assume h: "\<And>k. k < 4 \<Longrightarrow> m (a + k) = m' (a' + k)"
  have "m a = m' a'" using h [of 0] by simp
  moreover have "m (a + 1) = m' (a' + 1)" "m (a + 2) = m' (a' + 2)" "m (a + 3) = m' (a' + 3)"
    using h [of 1] h [of 2] h [of 3] by simp_all
  ultimately show ?thesis by (simp add: load_u32_def)
qed

lemma load_u64_store_u64_disj [simp]:
  "a' + 8 \<le> a \<or> a + 8 \<le> a' \<Longrightarrow> load_u64 (store_u64 m a v) a' = load_u64 m a'"
  by (rule load_u64_cong) auto

lemma load_u64_store_u32_disj [simp]:
  "a' + 8 \<le> a \<or> a + 4 \<le> a' \<Longrightarrow> load_u64 (store_u32 m a v) a' = load_u64 m a'"
  by (rule load_u64_cong) auto

lemma load_u64_store_u16_disj [simp]:
  "a' + 8 \<le> a \<or> a + 2 \<le> a' \<Longrightarrow> load_u64 (store_u16 m a v) a' = load_u64 m a'"
  by (rule load_u64_cong) auto

lemma load_u64_upd_disj [simp]:
  "i < a \<or> a + 8 \<le> i \<Longrightarrow> load_u64 (m(i := x)) a = load_u64 m a"
  by (rule load_u64_cong) auto

lemma load_u32_store_u64_disj [simp]:
  "a' + 4 \<le> a \<or> a + 8 \<le> a' \<Longrightarrow> load_u32 (store_u64 m a v) a' = load_u32 m a'"
  by (rule load_u32_cong) auto

lemma load_u32_store_u16_disj [simp]:
  "a' + 4 \<le> a \<or> a + 2 \<le> a' \<Longrightarrow> load_u32 (store_u16 m a v) a' = load_u32 m a'"
  by (rule load_u32_cong) auto

lemma load_u32_upd_disj [simp]:
  "i < a \<or> a + 4 \<le> i \<Longrightarrow> load_u32 (m(i := x)) a = load_u32 m a"
  by (rule load_u32_cong) auto

lemma load_u64_memcpy [simp]:
  "k + 8 \<le> n \<Longrightarrow> load_u64 (memcpy md dst ms src n) (dst + k) = load_u64 ms (src + k)"
  by (rule load_u64_cong) (auto simp: memcpy_def add.assoc)

lemma cell_type_code [simp]: "m a = JType_code t \<Longrightarrow> cell_type m a = Some t"
  by (cases t) (simp_all add: cell_type_def)

lemmas handler_defs = fresh_handler_def Handler_def Document_def LFStack_def startArray_def start_container_def
  and_then_def root_to_def holds_buffer_def
  pushBool_def pushInt64_def pushDouble_def convertedFor_def at_end_def at_lastValue_def reserve_def in_buffer_def
  stack_end_def lastValue_def increment_def decrement_def sizeof_ConstValue_def
  widen_def widen_bools_def widen_ints_def widen_doubles_def ints_to_doubles_def
  inPlaceValue_int64_def inPlaceValue_double_def inPlaceValue_bool_def
  endArray_def move_to_alloc_def LFJ_MAX_UINT16_def

lemma upt_2: "[0 ..< 2] = [0, 1]" and upt_3: "[0 ..< 3] = [0, 1, 2]"
  by (simp_all add: upt_rec)

lemma double_of_int64_1: "double_of_int64 1 = double_1_0"
  by (simp add: double_of_int64_def double_1_0_def bit_length.simps)

lemma double_of_int64_2: "double_of_int64 2 = double_2_0"
  by (simp add: double_of_int64_def double_2_0_def bit_length.simps)

lemma int_int_double_pushed_state: "int_int_double_pushed (fresh_handler a b r d True) =
   Inr \<lparr>mDoc = (Document a b r)\<lparr>mRoot := set_container (JValue_nul r 0) 0 ARRAY\<rparr>,
        mStack = \<lparr>lf_size = 24, lf_capa = 1024,
                  lf_data = store_u64 (store_u64 (store_u64 (store_u64 (store_u64 d 0 1) 8 2) 0 double_1_0) 8 double_2_0) 16 double_3_5\<rparr>,
        mMemberVal = False, mRootInit = True, mIntToDouble = True, mArraySize = 3, mArrayType = DARRAY\<rparr>"
  by (simp add: int_int_double_pushed_def handler_defs upt_2 double_of_int64_1 double_of_int64_2
      cell_capa_def cell_size_def JValue_nul_def load_u16_def)

lemma load_u64_memcpy_in [simp]:
  "dst \<le> a \<and> a + 8 \<le> dst + n \<Longrightarrow> load_u64 (memcpy md dst ms src n) a = load_u64 ms (src + (a - dst))"
  by (rule load_u64_cong) (auto simp: memcpy_def intro!: arg_cong [where f = ms])

lemma allocate_fresh_24:
  "allocate ObjectChunkSize (PoolAllocator b) 24 =
     Some (b 1, \<lparr>mLastChunk = 0, mTotalDead = 0, mChunksCapacity = 1,
                    mChunks = [\<lparr>firstAvail = 24, firstDead = 32768, totalDead = 0, data = b 1\<rparr>],
                    mFallbacks = [], mFallbackCount = 0, mem = (\<lambda>_. 0), base = b, baseCalls = 2\<rparr>)"
  by (simp add: allocator_defs ObjectChunkSize_def)

lemma int_int_double_darray: "and_then (int_int_double_scenario (fresh_handler a page_base r d True))
                (\<lambda>hs. Inr (root_darray hs 3, lf_size (mStack hs)))
   = Inr ((Some DARRAY, 3, [double_1_0, double_2_0, double_3_5]), 0)"
  apply (simp add: int_int_double_scenario_def int_int_double_pushed_state)
  apply (simp add: endArray_def move_to_alloc_def and_then_def in_buffer_def stack_end_def lastValue_def
      decrement_def LFJ_MAX_UINT16_def Document_def memPush_def allocate_fresh_24 root_darray_def
      setRawDArray_def setRaw_def force_type_def cell_size_def cell_ptr_def upt_3 page_base_def)
  done









lemma string_bytes_strlen: "string_bytes s (int (strlen s)) = string_bytes s (- 1)"
proof -
  have "string_bytes s (int (strlen s)) = Inr (take (strlen s) (s @ [nul_byte]))"
    using strlen_le [of s] by (simp add: string_bytes_def del: take_append)
  then show ?thesis by (simp only: take_strlen string_bytes_scan)
qed

lemma provide_strlen: "provide h p s own key (int (strlen s)) = provide h p s own key (- 1)"
  by (simp add: provide_def string_bytes_strlen)

lemma inPlaceValue_string_strlen:
  "inPlaceValue_string h s False (int (strlen s)) = inPlaceValue_string h s False (- 1)"
proof (intro ext)
  fix doc m dst
  show "inPlaceValue_string h s False (int (strlen s)) doc m dst = inPlaceValue_string h s False (- 1) doc m dst"
  proof (cases "strlen s < ShortString_MaxSize")
    case True
    then show ?thesis by (simp add: inPlaceValue_string_def minStringLength_eq)
  next
    case False
    then show ?thesis by (simp add: inPlaceValue_string_def minStringLength_eq provide_strlen)
  qed
qed

lemma inPlaceMember_strlen:
  "inPlaceMember h s copy (int (strlen s)) = inPlaceMember h s copy (- 1)"
  by (intro ext) (simp add: inPlaceMember_def provide_strlen)

lemma pushString_const_strlen:
  "pushString h hs s False (- 1) = pushString h hs s False (int (strlen s))"
  by (simp add: pushString_def inPlaceValue_string_strlen)

lemma pushKey_strlen:
  "pushKey h hs s copy (- 1) = pushKey h hs s copy (int (strlen s))"
  by (simp add: pushKey_def inPlaceMember_strlen)

lemma unat_minus_1_32: "unat (- 1 :: 32 word) = 4294967295"
  by (simp add: unsigned_minus_1_eq_mask mask_eq_exp_minus_1)

lemma pushString_hi_copy_scan:
  "pushString h (fresh_handler a b r d allow) ''hi'' True (- 1) = Inl OutOfBounds"
  by (simp add: pushString_def handler_defs inPlaceValue_string_def minStringLength_eq strlen_def nul_byte_def
      ShortString_MaxSize_def ShortString_MaxLen_def sizeof_Number_def JValue_sstring_def isShort_def
      unat_minus_1_32)

lemma pushString_hi_copy_2:
  "and_then (pushString h (fresh_handler a b r d allow) ''hi'' True 2)
     (\<lambda>hs. Inr (cell_type (lf_data (mStack hs)) 0, map (lf_data (mStack hs)) [1, 2, 3],
                 lf_data (mStack hs) 15, lf_size (mStack hs)))
   = Inr (Some SSTRING, [0x68, 0x69, 0], 12, 16)"
  by (simp add: pushString_def handler_defs inPlaceValue_string_def
      ShortString_MaxSize_def ShortString_MaxLen_def sizeof_Number_def JValue_sstring_def isShort_def
      string_bytes_def store_chars_def)













text \<open>
  Claim C2. With \<open>allowIntToDouble = true\<close> the sequence produces what the claim says:
  the root is a DArray of size 3 whose buffer holds 1.0, 2.0 and 3.5, and the stack is
  empty again. With \<open>allowIntToDouble = false\<close> it does not produce the generic Array.
  \<open>convertedFor\<close> widens the two pending integers in place to two cells of 16 bytes but
  leaves \<open>mStack.size\<close> at 16; \<open>pushDouble\<close> then writes its cell at offset 16, over
  the second widened cell, and the size becomes 32 where three cells need 48.
  \<open>endArray(3)\<close> takes its 48 bytes from \<open>mStack.end() - 48\<close>, which lies 16 bytes in
  front of the buffer.
\<close>

theorem int_int_double_array:
  "and_then (int_int_double_scenario (fresh_handler a page_base r d True))
     (\<lambda>hs. Inr (root_darray hs 3, lf_size (mStack hs)))
     = Inr ((Some DARRAY, 3, [double_1_0, double_2_0, double_3_5]), 0)
   \<and> and_then (int_int_double_pushed (fresh_handler a b r d False))
        (\<lambda>hs. Inr (lf_size (mStack hs), mArrayType hs)) = Inr (32, ARRAY)
   \<and> int_int_double_scenario (fresh_handler a b r d False) = Inl OutOfBounds"
proof (intro conjI)
  show "and_then (int_int_double_scenario (fresh_handler a page_base r d True))
     (\<lambda>hs. Inr (root_darray hs 3, lf_size (mStack hs)))
     = Inr ((Some DARRAY, 3, [double_1_0, double_2_0, double_3_5]), 0)"
    by (rule int_int_double_darray)
  show "and_then (int_int_double_pushed (fresh_handler a b r d False))
        (\<lambda>hs. Inr (lf_size (mStack hs), mArrayType hs)) = Inr (32, ARRAY)"
    by (simp add: int_int_double_pushed_def handler_defs upt_2
        cell_capa_def cell_size_def JValue_nul_def load_u16_def)
  show "int_int_double_scenario (fresh_handler a b r d False) = Inl OutOfBounds"
    by (simp add: int_int_double_scenario_def int_int_double_pushed_def handler_defs upt_2
        cell_capa_def cell_size_def JValue_nul_def load_u16_def)
qed

text \<open>
  Claim C3. The sequence does not produce the Array of two values. \<open>convertedFor\<close>
  promotes the pending boolean in place to a cell of 16 bytes at offset 0 but leaves
  \<open>mStack.size\<close> at 1, so \<open>pushInt64\<close> writes its cell at offset 1, over the
  promoted cell, and the size becomes 17 where two cells need 32. \<open>endArray(2)\<close> takes
  its 32 bytes from \<open>mStack.end() - 32\<close>, which lies 15 bytes in front of the buffer.
  The result does not depend on \<open>allowIntToDouble\<close>.
\<close>

theorem bool_int_array:
  "and_then (bool_int_pushed (fresh_handler a b r d allow))
     (\<lambda>hs. Inr (lf_size (mStack hs), mArrayType hs)) = Inr (17, ARRAY)
   \<and> bool_int_scenario (fresh_handler a b r d allow) = Inl OutOfBounds"
  by (simp add: bool_int_scenario_def bool_int_pushed_def handler_defs
      cell_capa_def cell_size_def JValue_nul_def load_u16_def)

text \<open>
  Claim C8. For \<open>pushKey\<close> with either copy flag, and for \<open>pushString\<close> without
  copy, the length \<open>-1\<close> gives the result of the scanned length, for every handler state
  and string. For \<open>pushString\<close> with \<open>copy = true\<close> it does not: the \<open>char*\<close>
  overload of \<open>inPlaceValue\<close> passes \<open>len\<close> instead of \<open>minLen\<close> to the short
  string constructor, which takes \<open>-1\<close> as the length 4294967295 and writes past the cell.
  On the handler of a fresh document, \<open>pushString("hi", true, -1)\<close> fails where
  \<open>pushString("hi", true, 2)\<close> stores the short string \<open>"hi"\<close> (tag, characters,
  terminator, and \<open>MaxLen - 2 = 12\<close> in the last byte).
\<close>

theorem pushString_copy_scan_length:
  "pushString h (fresh_handler a b r d allow) ''hi'' True (- 1) = Inl OutOfBounds
   \<and> and_then (pushString h (fresh_handler a b r d allow) ''hi'' True 2)
        (\<lambda>hs. Inr (cell_type (lf_data (mStack hs)) 0, map (lf_data (mStack hs)) [1, 2, 3],
                    lf_data (mStack hs) 15, lf_size (mStack hs)))
        = Inr (Some SSTRING, [0x68, 0x69, 0], 12, 16)
   \<and> pushString h hs s False (- 1) = pushString h hs s False (int (strlen s))
   \<and> pushKey h hs s copy (- 1) = pushKey h hs s copy (int (strlen s))"
  using pushString_hi_copy_scan pushString_hi_copy_2 pushString_const_strlen pushKey_strlen
  by (intro conjI)




end
